theory Spec2Isabelle
  imports Main
begin

section \<open>Python values of the notebook\<close>

text \<open>
  The development embeds the four functions of \<^verbatim>\<open>download_image_from_iiif.ipynb\<close>:
  \<^verbatim>\<open>get_pid\<close>, \<^verbatim>\<open>get_image_ids\<close>, \<^verbatim>\<open>construct_image_url\<close> and
  \<^verbatim>\<open>download_image\<close>. Strings are lists of characters; URLs and identifiers are
  taken to be ASCII, so that one \<^typ>\<open>char\<close> is one Python character.
\<close>

text \<open>
  A value produced by \<^verbatim>\<open>response.json()\<close>: \<^verbatim>\<open>None\<close>, a bool, an int, a
  float (kept as its lexeme, since its arithmetic is never used), a str, a list, or a dict
  given by its items in insertion order (the keys of a dict are distinct).
\<close>

datatype json =
    JNull
  | JBool bool
  | JInt int
  | JFloat string
  | JStr string
  | JArr "json list"
  | JObj "(string \<times> json) list"

text \<open>The exceptions the notebook can raise; none of them is caught anywhere.\<close>

datatype error =
    KeyError
  | IndexError
  | TypeError
  | RequestException
  | JSONDecodeError

subsection \<open>Formatting inside f-strings\<close>

definition digit_char :: "nat \<Rightarrow> char" where
  "digit_char n = ''0123456789'' ! n"

function str_nat :: "nat \<Rightarrow> string" where
  "str_nat n = (if n < 10 then [digit_char n] else str_nat (n div 10) @ [digit_char (n mod 10)])"
  by pat_completeness auto
termination
  by (relation "measure (\<lambda>n. n)") auto

declare str_nat.simps [simp del]

text \<open>\<^verbatim>\<open>str(i)\<close> for a Python int.\<close>

definition str_int :: "int \<Rightarrow> string" where
  "str_int i = (if i < 0 then CHR ''-'' # str_nat (nat (- i)) else str_nat (nat i))"

text \<open>
  \<^verbatim>\<open>f'{v}'\<close> for an optional int (\<^verbatim>\<open>max_width\<close>, \<^verbatim>\<open>max_height\<close>) and for an
  optional str (\<^verbatim>\<open>pid\<close>): \<^verbatim>\<open>None\<close> prints as the four letters \<^verbatim>\<open>None\<close>.
\<close>

definition fmt_int :: "int option \<Rightarrow> string" where
  "fmt_int v = (case v of None \<Rightarrow> ''None'' | Some i \<Rightarrow> str_int i)"

definition fmt_str :: "string option \<Rightarrow> string" where
  "fmt_str v = (case v of None \<Rightarrow> ''None'' | Some s \<Rightarrow> s)"

text \<open>
  \<^verbatim>\<open>f'{v}'\<close> for a value taken out of the manifest. A str prints as itself, \<^verbatim>\<open>None\<close>,
  bools and ints as Python prints them. What \<^verbatim>\<open>str\<close> gives for a float, a list or a
  dict is Python's own \<^verbatim>\<open>repr\<close>, which is not code of the notebook: it is the
  parameter \<open>rp\<close>.
\<close>

definition fmt_json :: "(json \<Rightarrow> string) \<Rightarrow> json \<Rightarrow> string" where
  "fmt_json rp v =
     (case v of
        JStr s \<Rightarrow> s
      | JNull \<Rightarrow> ''None''
      | JBool b \<Rightarrow> (if b then ''True'' else ''False'')
      | JInt i \<Rightarrow> str_int i
      | _ \<Rightarrow> rp v)"

text \<open>Truth value of an optional int in a condition: \<^verbatim>\<open>None\<close> and \<^verbatim>\<open>0\<close> are false.\<close>

definition truthy :: "int option \<Rightarrow> bool" where
  "truthy v = (case v of None \<Rightarrow> False | Some i \<Rightarrow> i \<noteq> 0)"

section \<open>construct_image_url\<close>

text \<open>The local variable \<^verbatim>\<open>size\<close> of \<^verbatim>\<open>construct_image_url\<close>.\<close>

definition size_str :: "int option \<Rightarrow> int option \<Rightarrow> string" where
  "size_str max_width max_height =
     (if truthy max_width \<and> truthy max_height then
        ''!'' @ fmt_int max_width @ '','' @ fmt_int max_height
      else if truthy max_width then fmt_int max_width @ '',''
      else if truthy max_height then '','' @ fmt_int max_height
      else ''max'')"

definition construct_image_url ::
  "(json \<Rightarrow> string) \<Rightarrow> json \<Rightarrow> string \<Rightarrow> int option \<Rightarrow> int option \<Rightarrow> string" where
  "construct_image_url rp image_id image_type max_width max_height =
     fmt_json rp image_id @ ''/full/'' @ size_str max_width max_height
       @ ''/0/default.'' @ image_type"

text \<open>
  The size token as the specification words it, by presence of each bound: both present
  gives \<^verbatim>\<open>!w,h\<close>, only the width \<^verbatim>\<open>w,\<close>, only the height \<^verbatim>\<open>,h\<close>, neither
  \<^verbatim>\<open>max\<close>.
\<close>

fun spec_size_token :: "int option \<Rightarrow> int option \<Rightarrow> string" where
  "spec_size_token None None = ''max''"
| "spec_size_token (Some w) None = str_int w @ '',''"
| "spec_size_token None (Some h) = '','' @ str_int h"
| "spec_size_token (Some w) (Some h) = ''!'' @ str_int w @ '','' @ str_int h"

section \<open>get_pid\<close>

subsection \<open>The regular expression\<close>

text \<open>
  \<^verbatim>\<open>re.search(r'entity=(IE\d+)', s)\<close> scans \<open>s\<close> from the left for the first position
  where the pattern matches; \<^verbatim>\<open>\d+\<close> is greedy and nothing follows it, so the group
  holds the letters \<^verbatim>\<open>IE\<close> and the whole run of digits after them. The result is
  \<^verbatim>\<open>match.group(1)\<close>, or \<open>None\<close> when \<^verbatim>\<open>re.search\<close> returns \<^verbatim>\<open>None\<close>.
\<close>

definition is_digit :: "char \<Rightarrow> bool" where
  "is_digit c = (c \<in> set ''0123456789'')"

definition match_entity :: "string \<Rightarrow> string option" where
  "match_entity s =
     (if take 9 s = ''entity=IE'' \<and> takeWhile is_digit (drop 9 s) \<noteq> []
      then Some (''IE'' @ takeWhile is_digit (drop 9 s)) else None)"

fun re_search_entity :: "string \<Rightarrow> string option" where
  "re_search_entity [] = None"
| "re_search_entity (c # cs) =
     (case match_entity (c # cs) of
        Some g \<Rightarrow> Some g
      | None \<Rightarrow> re_search_entity cs)"

subsection \<open>Responses, sessions and the world\<close>

text \<open>
  The cookies a request carries are pairs of a name and a value. A cookie an answer sets
  is one \<^verbatim>\<open>Set-Cookie\<close> header: the name, the value, and the attributes after them
  (\<^verbatim>\<open>Domain\<close>, \<^verbatim>\<open>Path\<close>, \<^verbatim>\<open>Expires\<close> and the like) as the server wrote them.
\<close>

type_synonym cookies = "(string \<times> string) list"

type_synonym set_cookie = "string \<times> string \<times> string"

text \<open>
  What the notebook reads of a \<^verbatim>\<open>requests\<close> response: the final URL after
  redirects, the status, the body bytes, and the value of \<^verbatim>\<open>response.json()\<close>
  (\<open>None\<close> when the body is not JSON and the call raises). \<open>set_cookies\<close> are the
  cookies the answer sets.
\<close>

record response =
  url :: string
  status_code :: nat
  content :: string
  json_body :: "json option"
  set_cookies :: "set_cookie list"

text \<open>
  The cookie jar of a session is kept as what it was made from: the answers the session
  has received so far, oldest first, each with the URL that was asked. Which cookies
  such a jar sends to a URL is decided inside \<^verbatim>\<open>requests\<close> (by the domain and the
  path a cookie was set for, by what a later answer replaced or expired, and so on) and
  not by the notebook; that rule is a parameter wherever a session is used. Time does not
  pass within a call: a cookie does not run out between two requests.
\<close>

type_synonym history = "(string \<times> response) list"

type_synonym policy = "history \<Rightarrow> string \<Rightarrow> cookies"

text \<open>
  The network as \<^verbatim>\<open>requests\<close> presents it: a URL and the cookies sent give a
  response, or \<open>None\<close> when the call raises (no connection, too many redirects, a URL
  without scheme).
\<close>

type_synonym server = "string \<Rightarrow> cookies \<Rightarrow> response option"

text \<open>One HTTP request as issued: the session it went through, if any, and what it carried.\<close>

record request =
  rq_session :: "nat option"
  rq_url :: string
  rq_cookies :: cookies

text \<open>
  Everything the notebook can change: the files on disk (path to bytes), the directories
  made, the sessions created so far with the cookie jar of each, the requests issued, in
  order, and the HTML handed to \<^verbatim>\<open>display\<close>. Operations of the file system are taken
  to succeed, and a path is the string it was built from.
\<close>

record world =
  files :: "string \<rightharpoonup> string"
  dirs :: "string set"
  next_session :: nat
  jars :: "nat \<Rightarrow> history"
  requests_log :: "request list"
  displayed :: "string list"

text \<open>
  What a session sends to a URL: nothing while it has received no answer, and after that
  what the rule of \<^verbatim>\<open>requests\<close> picks from the answers received.
\<close>

definition jar_cookies :: "policy \<Rightarrow> history \<Rightarrow> string \<Rightarrow> cookies" where
  "jar_cookies sel jar u = (case jar of [] \<Rightarrow> [] | _ \<Rightarrow> sel jar u)"

text \<open>\<^verbatim>\<open>requests.get(url)\<close>: a request outside any session, carrying no cookie.\<close>

definition requests_get :: "server \<Rightarrow> string \<Rightarrow> world \<Rightarrow> (error + response) \<times> world" where
  "requests_get srv u w =
     (let w1 = w\<lparr>requests_log := requests_log w @
                  [\<lparr>rq_session = None, rq_url = u, rq_cookies = []\<rparr>]\<rparr>
      in case srv u [] of
           None \<Rightarrow> (Inl RequestException, w1)
         | Some r \<Rightarrow> (Inr r, w1))"

text \<open>\<^verbatim>\<open>requests.Session()\<close>: a new session, its jar empty.\<close>

definition new_session :: "world \<Rightarrow> nat \<times> world" where
  "new_session w =
     (next_session w,
      w\<lparr>next_session := Suc (next_session w), jars := (jars w)(next_session w := [])\<rparr>)"

text \<open>
  \<^verbatim>\<open>s.get(url)\<close>: sends what the jar of \<open>s\<close> holds for the URL, and the answer joins
  the jar.
\<close>

definition session_get ::
  "policy \<Rightarrow> server \<Rightarrow> nat \<Rightarrow> string \<Rightarrow> world \<Rightarrow> (error + response) \<times> world" where
  "session_get sel srv s u w =
     (let sent = jar_cookies sel (jars w s) u;
          w1 = w\<lparr>requests_log := requests_log w @
                  [\<lparr>rq_session = Some s, rq_url = u, rq_cookies = sent\<rparr>]\<rparr>
      in case srv u sent of
           None \<Rightarrow> (Inl RequestException, w1)
         | Some r \<Rightarrow> (Inr r, w1\<lparr>jars := (jars w1)(s := jars w s @ [(u, r)])\<rparr>))"

definition get_pid :: "server \<Rightarrow> string \<Rightarrow> world \<Rightarrow> (error + string option) \<times> world" where
  "get_pid srv handle_url w =
     (case requests_get srv handle_url w of
        (Inl e, w1) \<Rightarrow> (Inl e, w1)
      | (Inr response, w1) \<Rightarrow> (Inr (re_search_entity (url response)), w1))"

section \<open>get_image_ids\<close>

text \<open>
  \<^verbatim>\<open>v[k]\<close> with a str \<open>k\<close>: only a dict accepts it, and raises \<^verbatim>\<open>KeyError\<close> when
  the key is missing.
\<close>

definition subscript_key :: "json \<Rightarrow> string \<Rightarrow> error + json" where
  "subscript_key v k =
     (case v of
        JObj kvs \<Rightarrow> (case map_of kvs k of None \<Rightarrow> Inl KeyError | Some x \<Rightarrow> Inr x)
      | _ \<Rightarrow> Inl TypeError)"

text \<open>
  \<^verbatim>\<open>v[0]\<close>: the first element of a list, the first character of a str, \<^verbatim>\<open>IndexError\<close>
  when either is empty; a dict from JSON has str keys only, so \<^verbatim>\<open>0\<close> is a missing key.
\<close>

definition subscript_zero :: "json \<Rightarrow> error + json" where
  "subscript_zero v =
     (case v of
        JArr xs \<Rightarrow> (case xs of [] \<Rightarrow> Inl IndexError | x # _ \<Rightarrow> Inr x)
      | JStr s \<Rightarrow> (case s of [] \<Rightarrow> Inl IndexError | c # _ \<Rightarrow> Inr (JStr [c]))
      | JObj kvs \<Rightarrow> Inl KeyError
      | _ \<Rightarrow> Inl TypeError)"

text \<open>
  \<^verbatim>\<open>for x in v\<close>: the elements of a list, the keys of a dict, the characters of a str;
  anything else is not iterable.
\<close>

definition iterate :: "json \<Rightarrow> error + json list" where
  "iterate v =
     (case v of
        JArr xs \<Rightarrow> Inr xs
      | JObj kvs \<Rightarrow> Inr (map (\<lambda>kv. JStr (fst kv)) kvs)
      | JStr s \<Rightarrow> Inr (map (\<lambda>c. JStr [c]) s)
      | _ \<Rightarrow> Inl TypeError)"

text \<open>Sequencing of steps that may raise.\<close>

definition thn :: "error + 'a \<Rightarrow> ('a \<Rightarrow> error + 'b) \<Rightarrow> error + 'b" where
  "thn r f = (case r of Inl e \<Rightarrow> Inl e | Inr x \<Rightarrow> f x)"

text \<open>\<^verbatim>\<open>canvas['images'][0]['resource']['service']['@id']\<close>\<close>

definition canvas_image_id :: "json \<Rightarrow> error + json" where
  "canvas_image_id canvas =
     thn (subscript_key canvas ''images'') (\<lambda>images.
     thn (subscript_zero images) (\<lambda>image.
     thn (subscript_key image ''resource'') (\<lambda>resource.
     thn (subscript_key resource ''service'') (\<lambda>service.
     subscript_key service ''@id''))))"

text \<open>The loop body appends to \<^verbatim>\<open>image_ids\<close>; an exception leaves the function at once.\<close>

fun collect_ids :: "json list \<Rightarrow> json list \<Rightarrow> error + json list" where
  "collect_ids [] image_ids = Inr image_ids"
| "collect_ids (canvas # rest) image_ids =
     (case canvas_image_id canvas of
        Inl e \<Rightarrow> Inl e
      | Inr v \<Rightarrow> collect_ids rest (image_ids @ [v]))"

definition get_image_ids :: "json \<Rightarrow> error + json list" where
  "get_image_ids manifest =
     thn (subscript_key manifest ''sequences'') (\<lambda>sequences.
     thn (subscript_zero sequences) (\<lambda>seq.
     thn (subscript_key seq ''canvases'') (\<lambda>canvases.
     thn (iterate canvases) (\<lambda>cs. collect_ids cs []))))"

section \<open>download_image\<close>

definition mkdir :: "string \<Rightarrow> world \<Rightarrow> world" where
  "mkdir d w = w\<lparr>dirs := insert d (dirs w)\<rparr>"

text \<open>\<^verbatim>\<open>filename.write_bytes(b)\<close> opens the file for writing, which empties it first.\<close>

definition write_bytes :: "string \<Rightarrow> string \<Rightarrow> world \<Rightarrow> world" where
  "write_bytes filename b w = w\<lparr>files := (files w)(filename \<mapsto> b)\<rparr>"

definition display_html :: "string \<Rightarrow> world \<Rightarrow> world" where
  "display_html h w = w\<lparr>displayed := displayed w @ [h]\<rparr>"

definition page_filename :: "string option \<Rightarrow> nat \<Rightarrow> string \<Rightarrow> string" where
  "page_filename pid index image_type =
     ''images/slv-'' @ fmt_str pid @ ''-'' @ str_nat index @ ''.'' @ image_type"

definition page_html :: "string \<Rightarrow> string" where
  "page_html filename =
     ''<a href='' @ [CHR 0x22] @ filename @ [CHR 0x22] @ ''><img width=500 src='' @ [CHR 0x22]
       @ filename @ [CHR 0x22] @ ''></a>''"

text \<open>
  The loop over \<^verbatim>\<open>enumerate(image_ids)\<close>, from \<open>index\<close> on. The status of the answer
  is not looked at: whatever body comes back is written.
\<close>

fun download_pages ::
  "(json \<Rightarrow> string) \<Rightarrow> policy \<Rightarrow> server \<Rightarrow> nat \<Rightarrow> string option \<Rightarrow> string \<Rightarrow> int option
     \<Rightarrow> int option \<Rightarrow> nat \<Rightarrow> json list \<Rightarrow> world \<Rightarrow> (error + unit) \<times> world" where
  "download_pages rp sel srv s pid image_type max_width max_height index [] w = (Inr (), w)"
| "download_pages rp sel srv s pid image_type max_width max_height index (image_id # rest) w =
     (case session_get sel srv s
             (construct_image_url rp image_id image_type max_width max_height) w of
        (Inl e, w1) \<Rightarrow> (Inl e, w1)
      | (Inr response, w1) \<Rightarrow>
          download_pages rp sel srv s pid image_type max_width max_height (Suc index) rest
            (let w2 = write_bytes (page_filename pid index image_type) (content response) w1
             in if image_type \<in> set [''jpg'', ''png'']
                then display_html (page_html (page_filename pid index image_type)) w2
                else w2))"

text \<open>
  The part of \<^verbatim>\<open>download_image\<close> that gets the manifest: the URL is built from
  \<open>pid\<close>, a session is created, the manifest is requested through it and its body
  parsed. The status of the answer is not looked at.
\<close>

definition manifest_url :: "string option \<Rightarrow> string" where
  "manifest_url pid =
     ''https://rosetta.slv.vic.gov.au/delivery/iiif/presentation/2.1/'' @ fmt_str pid
       @ ''/manifest''"

definition fetch_manifest ::
  "policy \<Rightarrow> server \<Rightarrow> string option \<Rightarrow> world \<Rightarrow> (error + nat \<times> json) \<times> world" where
  "fetch_manifest sel srv pid w =
     (case new_session w of
        (s, w1) \<Rightarrow>
          (case session_get sel srv s (manifest_url pid) w1 of
             (Inl e, w2) \<Rightarrow> (Inl e, w2)
           | (Inr response, w2) \<Rightarrow>
               (case json_body response of
                  None \<Rightarrow> (Inl JSONDecodeError, w2)
                | Some manifest \<Rightarrow> (Inr (s, manifest), w2))))"

definition download_image ::
  "(json \<Rightarrow> string) \<Rightarrow> policy \<Rightarrow> server \<Rightarrow> string \<Rightarrow> string \<Rightarrow> int option \<Rightarrow> int option
     \<Rightarrow> world \<Rightarrow> (error + unit) \<times> world" where
  "download_image rp sel srv handle_url image_type max_width max_height w =
     (case get_pid srv handle_url w of
        (Inl e, w1) \<Rightarrow> (Inl e, w1)
      | (Inr pid, w1) \<Rightarrow>
          (case fetch_manifest sel srv pid w1 of
             (Inl e, w2) \<Rightarrow> (Inl e, w2)
           | (Inr (s, manifest), w2) \<Rightarrow>
               (case get_image_ids manifest of
                  Inl e \<Rightarrow> (Inl e, w2)
                | Inr image_ids \<Rightarrow>
                    download_pages rp sel srv s pid image_type max_width max_height 0 image_ids
                      (mkdir ''images'' w2))))"

text \<open>The call with the defaults of the signature: \<^verbatim>\<open>image_type='jpg'\<close>, no bounds.\<close>

definition download_image_default ::
  "(json \<Rightarrow> string) \<Rightarrow> policy \<Rightarrow> server \<Rightarrow> string \<Rightarrow> world \<Rightarrow> (error + unit) \<times> world" where
  "download_image_default rp sel srv handle_url w =
     download_image rp sel srv handle_url ''jpg'' None None w"

section \<open>The manifest structure in the words of the specification\<close>

text \<open>
  The specification describes the structure the parser expects as a path through the
  document: \<^verbatim>\<open>sequences\<close>, the first sequence, its \<^verbatim>\<open>canvases\<close>, and in each
  canvas \<^verbatim>\<open>images\<close>, the first image, its \<^verbatim>\<open>resource\<close>, its \<^verbatim>\<open>service\<close> and
  the identifier \<^verbatim>\<open>@id\<close>. A step is present when the value is an object holding the
  key, or a list holding a first element; otherwise that level is absent.
\<close>

datatype step = Key string | First

fun spec_step :: "step \<Rightarrow> json \<Rightarrow> json option" where
  "spec_step (Key k) (JObj kvs) = map_of kvs k"
| "spec_step First (JArr (x # xs)) = Some x"
| "spec_step _ _ = None"

fun spec_at :: "step list \<Rightarrow> json \<Rightarrow> json option" where
  "spec_at [] v = Some v"
| "spec_at (p # ps) v = (case spec_step p v of None \<Rightarrow> None | Some x \<Rightarrow> spec_at ps x)"

definition spec_canvases :: "json \<Rightarrow> json option" where
  "spec_canvases manifest = spec_at [Key ''sequences'', First, Key ''canvases''] manifest"

definition spec_service_id :: "json \<Rightarrow> json option" where
  "spec_service_id canvas =
     spec_at [Key ''images'', First, Key ''resource'', Key ''service'', Key ''@id''] canvas"

text \<open>
  The expected structure is there when the canvases of the first sequence are a list
  and every canvas of it leads to a service identifier.
\<close>

definition spec_structure :: "json \<Rightarrow> bool" where
  "spec_structure manifest =
     (\<exists>cs. spec_canvases manifest = Some (JArr cs) \<and> (\<forall>c\<in>set cs. spec_service_id c \<noteq> None))"

section \<open>The identifier pattern in the words of the specification\<close>

text \<open>
  A URL contains the pattern \<^verbatim>\<open>entity=(IE<digits>)\<close> when it can be cut into a
  prefix, the text \<^verbatim>\<open>entity=IE\<close>, one digit or more, and a rest.
\<close>

definition spec_contains_entity :: "string \<Rightarrow> bool" where
  "spec_contains_entity u =
     (\<exists>pre ds post. u = pre @ ''entity=IE'' @ ds @ post \<and> ds \<noteq> [] \<and> (\<forall>c\<in>set ds. is_digit c))"

section \<open>Sessions of earlier calls\<close>

text \<open>
  Every session named in the log was created before: its number is below the number the
  next session will get. The empty world has the property and every call keeps it.
\<close>

definition sessions_known :: "world \<Rightarrow> bool" where
  "sessions_known w = (\<forall>q\<in>set (requests_log w). \<forall>s. rq_session q = Some s \<longrightarrow> s < next_session w)"

text \<open>Each request of \<open>qs\<close> asks for an image.\<close>

definition image_requests ::
  "(json \<Rightarrow> string) \<Rightarrow> string \<Rightarrow> int option \<Rightarrow> int option \<Rightarrow> request list \<Rightarrow> bool" where
  "image_requests rp t mw mh qs =
     (\<forall>q\<in>set qs. \<exists>x. rq_url q = construct_image_url rp x t mw mh)"

text \<open>
  The requests \<open>qs\<close> are what session \<open>s\<close> issues, one after the other, from the jar
  \<open>jar\<close> on: each goes through \<open>s\<close> and carries exactly what the jar sends to its URL,
  its answer joins the jar, and nothing follows a request that raised.
\<close>

fun session_requests :: "policy \<Rightarrow> server \<Rightarrow> nat \<Rightarrow> history \<Rightarrow> request list \<Rightarrow> bool" where
  "session_requests sel srv s jar [] = True"
| "session_requests sel srv s jar (q # qs) =
     (rq_session q = Some s \<and> rq_cookies q = jar_cookies sel jar (rq_url q) \<and>
      (case srv (rq_url q) (rq_cookies q) of
         None \<Rightarrow> qs = []
       | Some r \<Rightarrow> session_requests sel srv s (jar @ [(rq_url q, r)]) qs))"

text \<open>
  The requests \<open>qs\<close> ask for the images \<open>ids\<close>, one each and in order, up to the last
  of them or up to the first request that raised.
\<close>

definition asks_for ::
  "(json \<Rightarrow> string) \<Rightarrow> string \<Rightarrow> int option \<Rightarrow> int option \<Rightarrow> server \<Rightarrow> json list
     \<Rightarrow> request list \<Rightarrow> bool" where
  "asks_for rp t mw mh srv ids qs =
     (map rq_url qs = map (\<lambda>x. construct_image_url rp x t mw mh) (take (length qs) ids)
      \<and> (length qs = length ids
          \<or> (qs \<noteq> [] \<and> srv (rq_url (last qs)) (rq_cookies (last qs)) = None)))"

text \<open>
  The identifiers a call reads from the manifest of \<open>pid\<close>; none when the manifest
  request raises, its body is not JSON or \<^verbatim>\<open>get_image_ids\<close> raises.
\<close>

definition read_ids :: "server \<Rightarrow> string option \<Rightarrow> json list" where
  "read_ids srv pid =
     (case srv (manifest_url pid) [] of
        None \<Rightarrow> []
      | Some r \<Rightarrow>
          (case json_body r of
             None \<Rightarrow> []
           | Some m \<Rightarrow> (case get_image_ids m of Inl e \<Rightarrow> [] | Inr ids \<Rightarrow> ids)))"

text \<open>
  Each request of \<open>qs\<close> carries what the rule of \<^verbatim>\<open>requests\<close> picks for its URL
  from a jar that begins with the answers \<open>jar\<close>.
\<close>

definition sent_from :: "policy \<Rightarrow> history \<Rightarrow> request list \<Rightarrow> bool" where
  "sent_from sel jar qs = (\<forall>q\<in>set qs. \<exists>later. rq_cookies q = sel (jar @ later) (rq_url q))"

text \<open>
  The file of each page holds the body of the answer to the request of that page: the
  request \<open>qs ! i\<close> is the one of page \<open>index + i\<close>.
\<close>

definition page_files :: "server \<Rightarrow> string option \<Rightarrow> string \<Rightarrow> nat \<Rightarrow> request list \<Rightarrow> world \<Rightarrow> bool" where
  "page_files srv pid t index qs w' =
     (\<forall>i<length qs. \<exists>r. srv (rq_url (qs ! i)) (rq_cookies (qs ! i)) = Some r
        \<and> files w' (page_filename pid (index + i) t) = Some (content r))"

text \<open>Between \<open>w\<close> and \<open>w'\<close> no file changed but those of the \<open>n\<close> pages from \<open>index\<close> on.\<close>

definition only_pages :: "string option \<Rightarrow> string \<Rightarrow> nat \<Rightarrow> nat \<Rightarrow> world \<Rightarrow> world \<Rightarrow> bool" where
  "only_pages pid t index n w w' =
     (\<forall>p. (\<forall>i<n. p \<noteq> page_filename pid (index + i) t) \<longrightarrow> files w' p = files w p)"

section \<open>Fixtures for the concrete instances\<close>

definition no_repr :: "json \<Rightarrow> string" where
  "no_repr v = []"

definition ex_canvas :: "string \<Rightarrow> json" where
  "ex_canvas service_id =
     JObj [(''images'',
       JArr [JObj [(''resource'', JObj [(''service'', JObj [(''@id'', JStr service_id)])])]])]"

definition ex_manifest :: "json list \<Rightarrow> json" where
  "ex_manifest canvases = JObj [(''sequences'', JArr [JObj [(''canvases'', JArr canvases)]])]"

definition world0 :: world where
  "world0 = \<lparr>files = Map.empty, dirs = {}, next_session = 0, jars = (\<lambda>s. []),
             requests_log = [], displayed = []\<rparr>"

definition ex_response :: response where
  "ex_response = \<lparr>url = [], status_code = 200, content = [], json_body = None, set_cookies = []\<rparr>"

text \<open>
  A rule for the jar, for the cookies of the servers below: a cookie set with the
  attribute \<^verbatim>\<open>Path=/\<close> and no domain goes back to every URL of the host that set
  it, and to no other host.
\<close>

definition host_of :: "string \<Rightarrow> string" where
  "host_of u =
     takeWhile (\<lambda>c. c \<noteq> CHR ''/'') (drop 2 (dropWhile (\<lambda>c. c \<noteq> CHR ''/'') u))"

definition ex_policy :: policy where
  "ex_policy jar u =
     concat (map (\<lambda>(asked, r).
       map (\<lambda>(n, v, a). (n, v))
         (filter (\<lambda>(n, v, a). a = ''Path=/'' \<and> host_of asked = host_of u) (set_cookies r))) jar)"

text \<open>
  A server for one item: the Handle redirects to the viewer of \<^verbatim>\<open>IE1164978\<close>, the
  manifest has one canvas and sets a cookie, and the image, on another host, is served.
  A second Handle redirects to a page that names no entity. Anything else is answered
  with status 404.
\<close>

definition ex_server :: server where
  "ex_server u c =
     (if u = ''http://handle.slv.vic.gov.au/10381/25896'' then
        Some (ex_response\<lparr>url := ''https://viewer.slv.vic.gov.au/?entity=IE1164978&mode=browse''\<rparr>)
      else if u = ''http://handle.slv.vic.gov.au/10381/0'' then
        Some (ex_response\<lparr>url := ''https://www.slv.vic.gov.au/search-discover''\<rparr>)
      else if u = ''https://rosetta.slv.vic.gov.au/delivery/iiif/presentation/2.1/IE1164978/manifest'' then
        Some (ex_response\<lparr>json_body := Some (ex_manifest [ex_canvas ''https://img.example/service1'']),
                           set_cookies := [(''JSESSIONID'', ''abc'', ''Path=/'')]\<rparr>)
      else if u = ''https://img.example/service1/full/max/0/default.jpg'' then
        Some (ex_response\<lparr>content := ''JPEG''\<rparr>)
      else Some (ex_response\<lparr>url := u, status_code := 404, content := ''Not Found''\<rparr>))"

text \<open>
  A server for an item of two pages: the first image is refused with status 403, the
  second is served; the manifest of \<^verbatim>\<open>IE8\<close> comes with status 404 and a JSON body;
  no other URL can be reached.
\<close>

definition ex_server_refusing :: server where
  "ex_server_refusing u c =
     (if u = ''http://handle.slv.vic.gov.au/10381/7'' then
        Some (ex_response\<lparr>url := ''https://viewer.slv.vic.gov.au/?entity=IE7''\<rparr>)
      else if u = ''https://rosetta.slv.vic.gov.au/delivery/iiif/presentation/2.1/IE7/manifest'' then
        Some (ex_response\<lparr>json_body :=
          Some (ex_manifest [ex_canvas ''https://img.example/a'', ex_canvas ''https://img.example/b''])\<rparr>)
      else if u = ''https://rosetta.slv.vic.gov.au/delivery/iiif/presentation/2.1/IE8/manifest'' then
        Some (ex_response\<lparr>status_code := 404,
                           json_body := Some (JObj [(''error'', JStr ''not found'')])\<rparr>)
      else if u = ''https://img.example/a/full/max/0/default.jpg'' then
        Some (ex_response\<lparr>status_code := 403, content := ''Forbidden''\<rparr>)
      else if u = ''https://img.example/b/full/max/0/default.jpg'' then
        Some (ex_response\<lparr>content := ''PAGE2''\<rparr>)
      else None)"

text \<open>
  A server for an item of two pages whose images are on the host of the manifest: the
  manifest sets a cookie, the first image sets another, and both images are served only
  to a request that carries the cookie of the manifest.
\<close>

definition ex_server_cookies :: server where
  "ex_server_cookies u c =
     (if u = ''http://handle.slv.vic.gov.au/10381/9'' then
        Some (ex_response\<lparr>url := ''https://viewer.slv.vic.gov.au/?entity=IE9''\<rparr>)
      else if u = ''https://rosetta.slv.vic.gov.au/delivery/iiif/presentation/2.1/IE9/manifest'' then
        Some (ex_response\<lparr>json_body :=
                Some (ex_manifest [ex_canvas ''https://rosetta.slv.vic.gov.au/iiif/a'',
                                   ex_canvas ''https://rosetta.slv.vic.gov.au/iiif/b'']),
              set_cookies := [(''JSESSIONID'', ''abc'', ''Path=/'')]\<rparr>)
      else if u = ''https://rosetta.slv.vic.gov.au/iiif/a/full/max/0/default.jpg''
              \<and> map_of c ''JSESSIONID'' = Some ''abc'' then
        Some (ex_response\<lparr>content := ''PAGE1'', set_cookies := [(''PAGE'', ''1'', ''Path=/'')]\<rparr>)
      else if u = ''https://rosetta.slv.vic.gov.au/iiif/b/full/max/0/default.jpg''
              \<and> map_of c ''JSESSIONID'' = Some ''abc'' then
        Some (ex_response\<lparr>content := ''PAGE2''\<rparr>)
      else None)"

text \<open>A server that redirects every request to one target and sets nothing.\<close>

definition ex_redirect :: "string \<Rightarrow> server" where
  "ex_redirect target u c = Some (ex_response\<lparr>url := target\<rparr>)"


section \<open>Decimal strings\<close>

lemma digit_char_is_digit: "n < 10 \<Longrightarrow> digit_char n \<in> set ''0123456789''"
  unfolding digit_char_def by (rule nth_mem) simp

lemma str_nat_hd: "str_nat n \<noteq> [] \<and> hd (str_nat n) \<in> set ''0123456789''"
proof (induction n rule: str_nat.induct)
  case (1 n)
  show ?case
  proof (cases "n < 10")
    case True
    then show ?thesis
      using digit_char_is_digit [of n] by (subst str_nat.simps, subst (2) str_nat.simps) simp
  next
    case False
    with 1 show ?thesis
      by (subst str_nat.simps, subst (2) str_nat.simps) simp
  qed
qed

lemma str_int_hd: "str_int i \<noteq> [] \<and> hd (str_int i) \<in> set ''-0123456789''"
  using str_nat_hd [of "nat i"] by (auto simp: str_int_def)

lemma str_int_0: "str_int 0 = ''0''"
  by (simp add: str_int_def str_nat.simps digit_char_def)

lemma str_int_not_bang: "str_int i @ xs \<noteq> CHR ''!'' # ys"
proof
  assume h: "str_int i @ xs = CHR ''!'' # ys"
  have "hd (str_int i @ xs) = hd (str_int i)"
    using str_int_hd [of i] by simp
  with h have "hd (str_int i) = CHR ''!''"
    by simp
  with str_int_hd [of i] show False
    by simp
qed

section \<open>The size token and the image URL\<close>

lemma size_str_exact:
  "(size_str w h = spec_size_token w h) = (w \<noteq> Some 0 \<and> h \<noteq> Some 0)"
proof (cases w; cases h)
  fix a b
  assume "w = Some a" "h = Some b"
  then show ?thesis
    using str_int_not_bang [of a "'',''" "str_int a @ '','' @ str_int b"]
    by (auto simp: size_str_def truthy_def fmt_int_def str_int_0)
qed (auto simp: size_str_def truthy_def fmt_int_def str_int_0)

lemma size_str_zero_width: "size_str (Some 0) h = size_str None h"
  by (simp add: size_str_def truthy_def)

lemma size_str_zero_height: "size_str w (Some 0) = size_str w None"
  by (simp add: size_str_def truthy_def)

text \<open>
  C3. On the four shapes of a size specification, each bound absent or a positive
  integer, \<^verbatim>\<open>construct_image_url\<close> gives \<^verbatim>\<open>max\<close> for neither bound, \<^verbatim>\<open>w,\<close> for
  the width alone, \<^verbatim>\<open>,h\<close> for the height alone and \<^verbatim>\<open>!w,h\<close> for both, inside the
  fixed template \<^verbatim>\<open>{image_id}/full/{size}/0/default.{image_type}\<close>.
\<close>

theorem construct_image_url_shapes:
  "construct_image_url rp (JStr i) t None None = i @ ''/full/'' @ ''max'' @ ''/0/default.'' @ t
   \<and> (0 < w \<longrightarrow> construct_image_url rp (JStr i) t (Some w) None
          = i @ ''/full/'' @ (str_int w @ '','') @ ''/0/default.'' @ t)
   \<and> (0 < h \<longrightarrow> construct_image_url rp (JStr i) t None (Some h)
          = i @ ''/full/'' @ ('','' @ str_int h) @ ''/0/default.'' @ t)
   \<and> (0 < w \<and> 0 < h \<longrightarrow> construct_image_url rp (JStr i) t (Some w) (Some h)
          = i @ ''/full/'' @ (''!'' @ str_int w @ '','' @ str_int h) @ ''/0/default.'' @ t)"
  by (simp add: construct_image_url_def size_str_def truthy_def fmt_int_def fmt_json_def)

theorem construct_image_url_shapes_witness:
  "construct_image_url no_repr (JStr ''https://img.example/service1'') ''jpg'' None None
     = ''https://img.example/service1/full/max/0/default.jpg''
   \<and> (0::int) < 200 \<and> (0::int) < 150
   \<and> construct_image_url no_repr (JStr ''https://img.example/service1'') ''jpg'' (Some 200) None
     = ''https://img.example/service1/full/200,/0/default.jpg''
   \<and> construct_image_url no_repr (JStr ''https://img.example/service1'') ''jpg'' None (Some 150)
     = ''https://img.example/service1/full/,150/0/default.jpg''
   \<and> construct_image_url no_repr (JStr ''https://img.example/service1'') ''jpg'' (Some 200) (Some 150)
     = ''https://img.example/service1/full/!200,150/0/default.jpg''"
  using construct_image_url_shapes
    [of no_repr "''https://img.example/service1''" "''jpg''" 200 150]
  by (simp add: str_int_def str_nat.simps digit_char_def)

text \<open>
  C10. \<^verbatim>\<open>construct_image_url\<close> tells a bound that is given from one that is not by
  its truth value: a bound of 0 is read as no bound, so width 0 with height 150 gives
  \<^verbatim>\<open>,150\<close> and width 0 with height 0 gives \<^verbatim>\<open>max\<close>. The size token is the one of
  the four-shape rule exactly when no given bound is 0; in particular it is whenever the
  given bounds are positive.
\<close>

theorem size_by_truth_value:
  "size_str (Some 0) h = size_str None h
   \<and> size_str w (Some 0) = size_str w None
   \<and> construct_image_url rp (JStr i) t (Some 0) (Some 150) = i @ ''/full/,150/0/default.'' @ t
   \<and> construct_image_url rp (JStr i) t (Some 0) (Some 0) = i @ ''/full/max/0/default.'' @ t
   \<and> ((size_str w h = spec_size_token w h) = (w \<noteq> Some 0 \<and> h \<noteq> Some 0))
   \<and> ((\<forall>v. w = Some v \<longrightarrow> 0 < v) \<and> (\<forall>v. h = Some v \<longrightarrow> 0 < v)
        \<longrightarrow> size_str w h = spec_size_token w h)"
proof -
  have ex1: "construct_image_url rp (JStr i) t (Some 0) (Some 150) = i @ ''/full/,150/0/default.'' @ t"
    by (simp add: construct_image_url_def size_str_def truthy_def fmt_int_def fmt_json_def
        str_int_def str_nat.simps digit_char_def)
  have ex2: "construct_image_url rp (JStr i) t (Some 0) (Some 0) = i @ ''/full/max/0/default.'' @ t"
    by (simp add: construct_image_url_def size_str_def truthy_def fmt_json_def)
  have pos: "(\<forall>v. w = Some v \<longrightarrow> 0 < v) \<and> (\<forall>v. h = Some v \<longrightarrow> 0 < v)
        \<longrightarrow> size_str w h = spec_size_token w h"
    unfolding size_str_exact by auto
  show ?thesis
    using size_str_zero_width size_str_zero_height ex1 ex2 size_str_exact pos by blast
qed

theorem size_by_truth_value_witness:
  "size_str (Some 0) (Some 150) = '',150''
   \<and> size_str (Some 200) (Some 0) = ''200,''
   \<and> construct_image_url no_repr (JStr ''A'') ''png'' (Some 0) (Some 150) = ''A/full/,150/0/default.png''
   \<and> construct_image_url no_repr (JStr ''A'') ''png'' (Some 0) (Some 0) = ''A/full/max/0/default.png''
   \<and> size_str (Some 200) (Some 0) \<noteq> spec_size_token (Some 200) (Some 0)
   \<and> size_str (Some 200) (Some 150) = ''!200,150''"
proof -
  have a: "size_str None (Some 150) = '',150''"
    by (simp add: size_str_def truthy_def fmt_int_def str_int_def str_nat.simps digit_char_def)
  have b: "size_str (Some 200) None = ''200,''"
    by (simp add: size_str_def truthy_def fmt_int_def str_int_def str_nat.simps digit_char_def)
  have c: "spec_size_token (Some 200) (Some 150) = ''!200,150''"
    by (simp add: str_int_def str_nat.simps digit_char_def)
  show ?thesis
    using size_by_truth_value [of "Some 150" "Some 200" no_repr "''A''" "''png''"]
      size_by_truth_value [of "Some 0" "Some 200" no_repr "''A''" "''png''"] a b c
    by simp
qed

section \<open>Reading the manifest\<close>

lemma subscript_key_iff: "(subscript_key v k = Inr x) = (spec_step (Key k) v = Some x)"
  by (cases v) (auto simp: subscript_key_def split: option.splits)

lemma subscript_key_str: "subscript_key (JStr s) k = Inl TypeError"
  by (simp add: subscript_key_def)

lemma subscript_zero_cases:
  "subscript_zero v = Inr x \<Longrightarrow> spec_step First v = Some x \<or> (\<exists>s. x = JStr s)"
  by (cases v) (auto simp: subscript_zero_def split: list.splits)

lemma subscript_zero_present: "spec_step First v = Some x \<Longrightarrow> subscript_zero v = Inr x"
  by (cases "(First, v)" rule: spec_step.cases) (auto simp: subscript_zero_def)

lemma thn_Inr_iff: "(thn r f = Inr y) = (\<exists>x. r = Inr x \<and> f x = Inr y)"
  by (cases r) (auto simp: thn_def)

lemma canvas_image_id_iff: "(canvas_image_id c = Inr v) = (spec_service_id c = Some v)"
proof
  assume "canvas_image_id c = Inr v"
  then obtain a b r s where
    a: "subscript_key c ''images'' = Inr a" and b: "subscript_zero a = Inr b"
    and r: "subscript_key b ''resource'' = Inr r" and s: "subscript_key r ''service'' = Inr s"
    and v: "subscript_key s ''@id'' = Inr v"
    unfolding canvas_image_id_def thn_Inr_iff by blast
  from b r have b': "spec_step First a = Some b"
    using subscript_zero_cases [OF b] by (auto simp: subscript_key_str)
  show "spec_service_id c = Some v"
    using a b' r s v by (simp add: spec_service_id_def subscript_key_iff)
next
  assume "spec_service_id c = Some v"
  then obtain a b r s where
    "spec_step (Key ''images'') c = Some a" "spec_step First a = Some b"
    "spec_step (Key ''resource'') b = Some r" "spec_step (Key ''service'') r = Some s"
    "spec_step (Key ''@id'') s = Some v"
    by (auto simp: spec_service_id_def split: option.splits)
  then show "canvas_image_id c = Inr v"
    unfolding canvas_image_id_def thn_Inr_iff
    by (auto simp: subscript_key_iff [symmetric] dest: subscript_zero_present)
qed

lemma canvases_iff:
  "(thn (subscript_key m ''sequences'') (\<lambda>sequences.
     thn (subscript_zero sequences) (\<lambda>seq. subscript_key seq ''canvases'')) = Inr v)
   = (spec_canvases m = Some v)"
proof
  assume "thn (subscript_key m ''sequences'') (\<lambda>sequences.
     thn (subscript_zero sequences) (\<lambda>seq. subscript_key seq ''canvases'')) = Inr v"
  then obtain a b where
    a: "subscript_key m ''sequences'' = Inr a" and b: "subscript_zero a = Inr b"
    and v: "subscript_key b ''canvases'' = Inr v"
    unfolding thn_Inr_iff by blast
  from b v have b': "spec_step First a = Some b"
    using subscript_zero_cases [OF b] by (auto simp: subscript_key_str)
  show "spec_canvases m = Some v"
    using a b' v by (simp add: spec_canvases_def subscript_key_iff)
next
  assume "spec_canvases m = Some v"
  then obtain a b where
    "spec_step (Key ''sequences'') m = Some a" "spec_step First a = Some b"
    "spec_step (Key ''canvases'') b = Some v"
    by (auto simp: spec_canvases_def split: option.splits)
  then show "thn (subscript_key m ''sequences'') (\<lambda>sequences.
     thn (subscript_zero sequences) (\<lambda>seq. subscript_key seq ''canvases'')) = Inr v"
    unfolding thn_Inr_iff
    by (auto simp: subscript_key_iff [symmetric] dest: subscript_zero_present)
qed

lemma collect_ids_present:
  "\<forall>c\<in>set cs. \<exists>v. spec_service_id c = Some v \<Longrightarrow>
   collect_ids cs acc = Inr (acc @ map (\<lambda>c. the (spec_service_id c)) cs)"
proof (induction cs arbitrary: acc)
  case Nil
  then show ?case by simp
next
  case (Cons c cs)
  then obtain v where v: "spec_service_id c = Some v" by auto
  then have "canvas_image_id c = Inr v" by (simp add: canvas_image_id_iff)
  with Cons v show ?case by simp
qed

lemma collect_ids_absent:
  "\<exists>c\<in>set cs. spec_service_id c = None \<Longrightarrow> \<exists>e. collect_ids cs acc = Inl e"
proof (induction cs arbitrary: acc)
  case Nil
  then show ?case by simp
next
  case (Cons c cs)
  show ?case
  proof (cases "canvas_image_id c")
    case (Inl e)
    then show ?thesis by simp
  next
    case (Inr v)
    then have "spec_service_id c = Some v" by (simp add: canvas_image_id_iff)
    with Cons.prems have "\<exists>c\<in>set cs. spec_service_id c = None" by auto
    from Cons.IH [OF this] Inr show ?thesis by simp
  qed
qed

lemma subscript_key_errors: "subscript_key v k = Inl e \<Longrightarrow> e \<in> {KeyError, IndexError, TypeError}"
  by (cases v) (auto simp: subscript_key_def split: option.splits)

lemma subscript_zero_errors: "subscript_zero v = Inl e \<Longrightarrow> e \<in> {KeyError, IndexError, TypeError}"
  by (cases v) (auto simp: subscript_zero_def split: list.splits)

lemma iterate_errors: "iterate v = Inl e \<Longrightarrow> e \<in> {KeyError, IndexError, TypeError}"
  by (cases v) (auto simp: iterate_def)

lemma canvas_image_id_errors:
  "canvas_image_id c = Inl e \<Longrightarrow> e \<in> {KeyError, IndexError, TypeError}"
  unfolding canvas_image_id_def thn_def
  by (auto split: sum.splits dest: subscript_key_errors subscript_zero_errors)

lemma collect_ids_errors:
  "collect_ids cs acc = Inl e \<Longrightarrow> e \<in> {KeyError, IndexError, TypeError}"
proof (induction cs arbitrary: acc)
  case Nil
  then show ?case by simp
next
  case (Cons c cs)
  then show ?case
    by (cases "canvas_image_id c") (auto dest: canvas_image_id_errors)
qed

lemma get_image_ids_errors:
  "get_image_ids m = Inl e \<Longrightarrow> e \<in> {KeyError, IndexError, TypeError}"
  unfolding get_image_ids_def thn_def
  by (auto split: sum.splits
      dest: subscript_key_errors subscript_zero_errors iterate_errors collect_ids_errors)

lemma get_image_ids_split:
  "get_image_ids m =
     thn (thn (subscript_key m ''sequences'') (\<lambda>sequences.
       thn (subscript_zero sequences) (\<lambda>seq. subscript_key seq ''canvases'')))
       (\<lambda>canvases. thn (iterate canvases) (\<lambda>cs. collect_ids cs []))"
  unfolding get_image_ids_def thn_def by (auto split: sum.splits)

lemma get_image_ids_canvases:
  "spec_canvases m = Some v \<Longrightarrow> get_image_ids m = thn (iterate v) (\<lambda>cs. collect_ids cs [])"
  unfolding get_image_ids_split canvases_iff [symmetric] by (simp add: thn_def)

lemma get_image_ids_no_canvases:
  "spec_canvases m = None \<Longrightarrow> \<exists>e. get_image_ids m = Inl e"
proof (cases "thn (subscript_key m ''sequences'') (\<lambda>sequences.
       thn (subscript_zero sequences) (\<lambda>seq. subscript_key seq ''canvases''))")
  case (Inl e)
  then show ?thesis unfolding get_image_ids_split by (simp add: thn_def)
next
  case (Inr v)
  assume "spec_canvases m = None"
  with Inr show ?thesis by (simp add: canvases_iff)
qed

text \<open>
  C4. When the first sequence of the manifest holds a list of N canvases, each with the
  service identifier of a first image, \<^verbatim>\<open>get_image_ids\<close> returns N identifiers: for
  each canvas, in the order of the list, the identifier of the service of its first image.
  Canvases with services \<^verbatim>\<open>A\<close> and \<^verbatim>\<open>B\<close> give \<^verbatim>\<open>['A', 'B']\<close>.
\<close>

theorem get_image_ids_in_order:
  assumes "spec_canvases m = Some (JArr cs)"
    and "\<forall>c\<in>set cs. \<exists>v. spec_service_id c = Some v"
  shows "get_image_ids m = Inr (map (\<lambda>c. the (spec_service_id c)) cs)
         \<and> length (map (\<lambda>c. the (spec_service_id c)) cs) = length cs"
  using assms collect_ids_present [of cs "[]"]
  by (simp add: get_image_ids_canvases iterate_def thn_def)

theorem get_image_ids_in_order_witness:
  "spec_canvases (ex_manifest [ex_canvas ''A'', ex_canvas ''B''])
     = Some (JArr [ex_canvas ''A'', ex_canvas ''B''])
   \<and> spec_service_id (ex_canvas ''A'') = Some (JStr ''A'')
   \<and> spec_service_id (ex_canvas ''B'') = Some (JStr ''B'')
   \<and> get_image_ids (ex_manifest [ex_canvas ''A'', ex_canvas ''B'']) = Inr [JStr ''A'', JStr ''B'']"
proof -
  have c: "spec_canvases (ex_manifest [ex_canvas ''A'', ex_canvas ''B''])
     = Some (JArr [ex_canvas ''A'', ex_canvas ''B''])"
    by (simp add: spec_canvases_def ex_manifest_def)
  have s: "\<And>x. spec_service_id (ex_canvas x) = Some (JStr x)"
    by (simp add: spec_service_id_def ex_canvas_def)
  have a: "\<forall>c\<in>set [ex_canvas ''A'', ex_canvas ''B'']. \<exists>v. spec_service_id c = Some v"
    by (simp add: s)
  show ?thesis
    using get_image_ids_in_order [OF c a] c by (simp add: s)
qed


lemma get_image_ids_empty:
  "spec_canvases m = Some (JObj []) \<or> spec_canvases m = Some (JStr []) \<Longrightarrow> get_image_ids m = Inr []"
  by (auto simp: get_image_ids_canvases iterate_def thn_def)

lemma canvas_image_id_str: "canvas_image_id (JStr s) = Inl TypeError"
  by (simp add: canvas_image_id_def thn_def subscript_key_def)

lemma get_image_ids_non_list:
  assumes "spec_canvases m = Some v" and "\<forall>cs. v \<noteq> JArr cs" and "v \<noteq> JObj []" and "v \<noteq> JStr []"
  shows "get_image_ids m = Inl TypeError"
proof (cases v)
  case (JObj kvs)
  with assms(3) obtain kv rest where "kvs = kv # rest" by (cases kvs) auto
  with JObj assms(1) show ?thesis
    by (simp add: get_image_ids_canvases iterate_def thn_def canvas_image_id_str)
next
  case (JStr s)
  with assms(4) obtain c rest where "s = c # rest" by (cases s) auto
  with JStr assms(1) show ?thesis
    by (simp add: get_image_ids_canvases iterate_def thn_def canvas_image_id_str)
next
  case (JArr cs)
  with assms(2) show ?thesis by simp
qed (use assms(1) in \<open>simp_all add: get_image_ids_canvases iterate_def thn_def\<close>)

text \<open>
  C7, as the code has it. Take a manifest without the expected structure: a key or a
  first element is missing on the way to the canvases of the first sequence, or the
  canvases are not a list, or some canvas of the list does not lead to the service
  identifier of a first image. Then \<^verbatim>\<open>get_image_ids\<close> raises \<^verbatim>\<open>KeyError\<close>,
  \<^verbatim>\<open>IndexError\<close> or \<^verbatim>\<open>TypeError\<close>, the exceptions of a failed subscript or loop, and
  returns no list, with one exception: canvases that are an empty dict or an empty str
  are looped over like an empty list, and the result is the empty list. In no case is a
  list of only some of the identifiers returned.
\<close>

theorem get_image_ids_absent:
  assumes "\<not> spec_structure m"
  shows "(spec_canvases m = Some (JObj []) \<or> spec_canvases m = Some (JStr [])
           \<longrightarrow> get_image_ids m = Inr [])
       \<and> (spec_canvases m \<noteq> Some (JObj []) \<and> spec_canvases m \<noteq> Some (JStr [])
           \<longrightarrow> (\<exists>e. get_image_ids m = Inl e \<and> e \<in> {KeyError, IndexError, TypeError}))
       \<and> (\<forall>ids. get_image_ids m = Inr ids \<longrightarrow> ids = [])"
proof -
  have empty: "get_image_ids m = Inr []"
    if "spec_canvases m = Some (JObj []) \<or> spec_canvases m = Some (JStr [])"
    using that by (rule get_image_ids_empty)
  have fails: "\<exists>e. get_image_ids m = Inl e"
    if n: "spec_canvases m \<noteq> Some (JObj [])" "spec_canvases m \<noteq> Some (JStr [])"
  proof (cases "spec_canvases m")
    case None
    then show ?thesis by (rule get_image_ids_no_canvases)
  next
    case (Some v)
    show ?thesis
    proof (cases "\<exists>cs. v = JArr cs")
      case True
      then obtain cs where cs: "v = JArr cs" by blast
      with Some assms have "\<exists>c\<in>set cs. spec_service_id c = None"
        unfolding spec_structure_def by auto
      from collect_ids_absent [OF this, of "[]"] Some cs show ?thesis
        by (simp add: get_image_ids_canvases iterate_def thn_def)
    next
      case False
      with Some n have "get_image_ids m = Inl TypeError"
        by (intro get_image_ids_non_list [of m v]) auto
      then show ?thesis by blast
    qed
  qed
  have "\<forall>ids. get_image_ids m = Inr ids \<longrightarrow> ids = []"
  proof (intro allI impI)
    fix ids
    assume r: "get_image_ids m = Inr ids"
    show "ids = []"
    proof (cases "spec_canvases m = Some (JObj []) \<or> spec_canvases m = Some (JStr [])")
      case True
      with empty r show ?thesis by simp
    next
      case False
      with fails r show ?thesis by auto
    qed
  qed
  with empty fails get_image_ids_errors show ?thesis
    by blast
qed

theorem get_image_ids_absent_witness:
  "\<not> spec_structure (JObj [(''label'', JStr ''x'')])
   \<and> get_image_ids (JObj [(''label'', JStr ''x'')]) = Inl KeyError
   \<and> \<not> spec_structure (ex_manifest [ex_canvas ''A'', JObj [(''images'', JArr [])]])
   \<and> get_image_ids (ex_manifest [ex_canvas ''A'', JObj [(''images'', JArr [])]]) = Inl IndexError
   \<and> \<not> spec_structure (JObj [(''sequences'', JArr [JObj [(''canvases'', JNull)]])])
   \<and> get_image_ids (JObj [(''sequences'', JArr [JObj [(''canvases'', JNull)]])]) = Inl TypeError
   \<and> \<not> spec_structure (JObj [(''sequences'', JArr [JObj [(''canvases'', JStr [])]])])
   \<and> spec_canvases (JObj [(''sequences'', JArr [JObj [(''canvases'', JStr [])]])]) = Some (JStr [])
   \<and> get_image_ids (JObj [(''sequences'', JArr [JObj [(''canvases'', JStr [])]])]) = Inr []"
proof -
  have n1: "\<not> spec_structure (JObj [(''label'', JStr ''x'')])"
    by (simp add: spec_structure_def spec_canvases_def)
  have n2: "\<not> spec_structure (ex_manifest [ex_canvas ''A'', JObj [(''images'', JArr [])]])"
    by (simp add: spec_structure_def spec_canvases_def spec_service_id_def ex_manifest_def)
  have n3: "\<not> spec_structure (JObj [(''sequences'', JArr [JObj [(''canvases'', JNull)]])])"
    by (simp add: spec_structure_def spec_canvases_def)
  have n4: "\<not> spec_structure (JObj [(''sequences'', JArr [JObj [(''canvases'', JStr [])]])])"
    by (simp add: spec_structure_def spec_canvases_def)
  have c4: "spec_canvases (JObj [(''sequences'', JArr [JObj [(''canvases'', JStr [])]])]) = Some (JStr [])"
    by (simp add: spec_canvases_def)
  have e1: "get_image_ids (JObj [(''label'', JStr ''x'')]) = Inl KeyError"
    by (simp add: get_image_ids_def thn_def subscript_key_def)
  have e2: "get_image_ids (ex_manifest [ex_canvas ''A'', JObj [(''images'', JArr [])]]) = Inl IndexError"
    by (simp add: get_image_ids_def thn_def subscript_key_def subscript_zero_def iterate_def
        canvas_image_id_def ex_manifest_def ex_canvas_def)
  have e3: "get_image_ids (JObj [(''sequences'', JArr [JObj [(''canvases'', JNull)]])]) = Inl TypeError"
    by (simp add: get_image_ids_def thn_def subscript_key_def subscript_zero_def iterate_def)
  from get_image_ids_absent [OF n4] c4
  have e4: "get_image_ids (JObj [(''sequences'', JArr [JObj [(''canvases'', JStr [])]])]) = Inr []"
    by simp
  from get_image_ids_absent [OF n1] e1
  have "\<exists>e. get_image_ids (JObj [(''label'', JStr ''x'')]) = Inl e"
    by simp
  with n1 n2 n3 n4 c4 e1 e2 e3 e4 show ?thesis
    by simp
qed

theorem get_image_ids_empty_dict_counterexample:
  "\<not> spec_structure (JObj [(''sequences'', JArr [JObj [(''canvases'', JObj [])]])])
   \<and> get_image_ids (JObj [(''sequences'', JArr [JObj [(''canvases'', JObj [])]])]) = Inr []
   \<and> get_image_ids (JObj [(''label'', JStr ''x'')]) = Inl KeyError"
  by (simp add: spec_structure_def spec_canvases_def get_image_ids_def thn_def subscript_key_def
      subscript_zero_def iterate_def)


section \<open>Finding the identifier\<close>

lemma match_entity_Some:
  assumes "match_entity s = Some g"
  shows "\<exists>ds post. s = ''entity=IE'' @ ds @ post \<and> ds \<noteq> [] \<and> (\<forall>c\<in>set ds. is_digit c)
           \<and> (post = [] \<or> \<not> is_digit (hd post)) \<and> g = ''IE'' @ ds"
proof -
  let ?ds = "takeWhile is_digit (drop 9 s)"
  let ?post = "dropWhile is_digit (drop 9 s)"
  from assms have t: "take 9 s = ''entity=IE''" and n: "?ds \<noteq> []" and g: "g = ''IE'' @ ?ds"
    by (auto simp: match_entity_def split: if_splits)
  have "s = take 9 s @ drop 9 s" by simp
  also have "\<dots> = ''entity=IE'' @ ?ds @ ?post" using t by simp
  finally have s: "s = ''entity=IE'' @ ?ds @ ?post" .
  have d: "\<forall>c\<in>set ?ds. is_digit c" by (auto dest: set_takeWhileD)
  have p: "?post = [] \<or> \<not> is_digit (hd ?post)" using hd_dropWhile [of is_digit "drop 9 s"] by blast
  from s n d p g show ?thesis by blast
qed

lemma match_entity_occurrence:
  assumes "ds \<noteq> []" and "\<forall>c\<in>set ds. is_digit c"
  shows "\<exists>g. match_entity (''entity=IE'' @ ds @ post) = Some g"
proof -
  obtain d ds' where "ds = d # ds'" using assms(1) by (cases ds) auto
  with assms(2) have "takeWhile is_digit (ds @ post) \<noteq> []" by simp
  then show ?thesis by (simp add: match_entity_def)
qed

lemma match_entity_full:
  assumes "ds \<noteq> []" and "\<forall>c\<in>set ds. is_digit c" and "post = [] \<or> \<not> is_digit (hd post)"
  shows "match_entity (''entity=IE'' @ ds @ post) = Some (''IE'' @ ds)"
proof -
  have "takeWhile is_digit post = []" using assms(3) by (cases post) auto
  with assms(2) have "takeWhile is_digit (ds @ post) = ds" by simp
  with assms(1) show ?thesis by (simp add: match_entity_def)
qed

lemma re_search_entity_Some:
  "re_search_entity u = Some g \<Longrightarrow> \<exists>pre s. u = pre @ s \<and> match_entity s = Some g"
proof (induction u)
  case Nil
  then show ?case by simp
next
  case (Cons c cs)
  show ?case
  proof (cases "match_entity (c # cs)")
    case None
    with Cons obtain pre s where "cs = pre @ s" "match_entity s = Some g" by auto
    then have "c # cs = (c # pre) @ s \<and> match_entity s = Some g" by simp
    then show ?thesis by blast
  next
    case (Some a)
    with Cons.prems have "c # cs = [] @ (c # cs) \<and> match_entity (c # cs) = Some g" by simp
    then show ?thesis by blast
  qed
qed

lemma re_search_entity_None:
  "re_search_entity u = None \<Longrightarrow> u = pre @ s \<Longrightarrow> match_entity s = None"
proof (induction u arbitrary: pre)
  case Nil
  then show ?case by (simp add: match_entity_def)
next
  case (Cons c cs)
  from Cons.prems(1) have m: "match_entity (c # cs) = None" and r: "re_search_entity cs = None"
    by (auto split: option.splits)
  show ?case
  proof (cases pre)
    case Nil
    with Cons.prems(2) m show ?thesis by simp
  next
    case (Cons a pre')
    with Cons.prems(2) have "cs = pre' @ s" by simp
    from Cons.IH [OF r this] show ?thesis .
  qed
qed

lemma re_search_entity_leftmost:
  assumes "match_entity s = Some g"
    and "\<And>p1 p2. pre = p1 @ p2 \<Longrightarrow> p2 \<noteq> [] \<Longrightarrow> match_entity (p2 @ s) = None"
  shows "re_search_entity (pre @ s) = Some g"
  using assms
proof (induction pre)
  case Nil
  then have "s \<noteq> []" by (auto simp: match_entity_def)
  then obtain c cs where "s = c # cs" by (cases s) auto
  with Nil show ?case by simp
next
  case (Cons c pre)
  have "match_entity ((c # pre) @ s) = None"
    using Cons.prems(2) [of "[]" "c # pre"] by simp
  moreover have "re_search_entity (pre @ s) = Some g"
  proof (rule Cons.IH [OF Cons.prems(1)])
    fix p1 p2 assume "pre = p1 @ p2" "p2 \<noteq> []"
    then show "match_entity (p2 @ s) = None"
      using Cons.prems(2) [of "c # p1" p2] by simp
  qed
  ultimately show ?case by simp
qed

lemma contains_iff_search: "spec_contains_entity u = (re_search_entity u \<noteq> None)"
proof
  assume "spec_contains_entity u"
  then obtain pre ds post where u: "u = pre @ ''entity=IE'' @ ds @ post" and "ds \<noteq> []"
    "\<forall>c\<in>set ds. is_digit c"
    unfolding spec_contains_entity_def by blast
  then obtain g where "match_entity (''entity=IE'' @ ds @ post) = Some g"
    using match_entity_occurrence by blast
  with u show "re_search_entity u \<noteq> None"
    using re_search_entity_None [of u pre "''entity=IE'' @ ds @ post"] by auto
next
  assume "re_search_entity u \<noteq> None"
  then obtain g where "re_search_entity u = Some g" by auto
  then obtain pre s where u: "u = pre @ s" and m: "match_entity s = Some g"
    using re_search_entity_Some by blast
  from match_entity_Some [OF m] u show "spec_contains_entity u"
    unfolding spec_contains_entity_def by blast
qed

lemma no_earlier_match:
  assumes "\<not> spec_contains_entity (pre @ ''entity=IE'')" and "pre = p1 @ p2" and "p2 \<noteq> []"
  shows "match_entity (p2 @ ''entity=IE'' @ rest) = None"
proof (rule ccontr)
  assume "match_entity (p2 @ ''entity=IE'' @ rest) \<noteq> None"
  then obtain g where "match_entity (p2 @ ''entity=IE'' @ rest) = Some g" by auto
  from match_entity_Some [OF this] obtain ds post where
    e: "p2 @ ''entity=IE'' @ rest = ''entity=IE'' @ ds @ post" and "ds \<noteq> []"
    and d: "\<forall>c\<in>set ds. is_digit c" by blast
  then obtain d ds' where ds: "ds = d # ds'" by (cases ds) auto
  have l: "10 \<le> length (p2 @ ''entity=IE'')" using assms(3) by (cases p2) auto
  have "take 10 ((p2 @ ''entity=IE'') @ rest) = take 10 (p2 @ ''entity=IE'')"
    using l unfolding take_append by simp
  then have "take 10 (p2 @ ''entity=IE'') = take 10 (p2 @ ''entity=IE'' @ rest)"
    by simp
  also have "\<dots> = ''entity=IE'' @ [d]" unfolding e ds by simp
  finally have "p2 @ ''entity=IE'' = ''entity=IE'' @ [d] @ drop 10 (p2 @ ''entity=IE'')"
    by (metis append.assoc append_take_drop_id)
  then have "pre @ ''entity=IE'' = p1 @ ''entity=IE'' @ [d] @ drop 10 (p2 @ ''entity=IE'')"
    using assms(2) by simp
  moreover have "is_digit d" using d ds by simp
  ultimately have "spec_contains_entity (pre @ ''entity=IE'')"
    unfolding spec_contains_entity_def by (metis list.distinct(1) empty_iff insert_iff list.set(1) list.set(2))
  with assms(1) show False by simp
qed

lemma re_search_entity_first:
  assumes "ds \<noteq> []" and "\<forall>c\<in>set ds. is_digit c" and "post = [] \<or> \<not> is_digit (hd post)"
    and "\<not> spec_contains_entity (pre @ ''entity=IE'')"
  shows "re_search_entity (pre @ ''entity=IE'' @ ds @ post) = Some (''IE'' @ ds)"
  using match_entity_full [OF assms(1-3)] no_earlier_match [OF assms(4)]
  by (intro re_search_entity_leftmost) auto

lemma get_pid_answer:
  "srv handle_url [] = Some r \<Longrightarrow> fst (get_pid srv handle_url w) = Inr (re_search_entity (url r))"
  by (simp add: get_pid_def requests_get_def)

lemma get_pid_raises:
  "srv handle_url [] = None \<Longrightarrow> fst (get_pid srv handle_url w) = Inl RequestException"
  by (simp add: get_pid_def requests_get_def)

lemma get_pid_log:
  "requests_log (snd (get_pid srv handle_url w))
     = requests_log w @ [\<lparr>rq_session = None, rq_url = handle_url, rq_cookies = []\<rparr>]"
  by (simp add: get_pid_def requests_get_def Let_def split: option.splits)

text \<open>
  C6, as the code has it. When the request of the Handle is answered and the final URL
  does not contain the pattern, \<^verbatim>\<open>get_pid\<close> raises nothing: it returns \<^verbatim>\<open>None\<close>.
  When the final URL contains the pattern, it returns the group of a match, \<^verbatim>\<open>IE\<close>
  and digits; the match is the leftmost one and the group holds the whole run of digits,
  so \<^verbatim>\<open>entity=IE12345\<close> gives \<^verbatim>\<open>IE12345\<close>.
\<close>

theorem get_pid_returns:
  assumes "srv handle_url [] = Some r"
  shows "(\<not> spec_contains_entity (url r) \<longrightarrow> fst (get_pid srv handle_url w) = Inr None)
       \<and> (spec_contains_entity (url r) \<longrightarrow>
            (\<exists>pre ds post. url r = pre @ ''entity=IE'' @ ds @ post \<and> ds \<noteq> []
               \<and> (\<forall>c\<in>set ds. is_digit c)
               \<and> fst (get_pid srv handle_url w) = Inr (Some (''IE'' @ ds))))
       \<and> (\<forall>pre ds post. url r = pre @ ''entity=IE'' @ ds @ post \<and> ds \<noteq> []
               \<and> (\<forall>c\<in>set ds. is_digit c) \<and> (post = [] \<or> \<not> is_digit (hd post))
               \<and> \<not> spec_contains_entity (pre @ ''entity=IE'')
            \<longrightarrow> fst (get_pid srv handle_url w) = Inr (Some (''IE'' @ ds)))"
proof (intro conjI impI allI)
  assume "\<not> spec_contains_entity (url r)"
  then show "fst (get_pid srv handle_url w) = Inr None"
    using assms get_pid_answer [of srv handle_url r w] by (simp add: contains_iff_search)
next
  assume "spec_contains_entity (url r)"
  then obtain g where g: "re_search_entity (url r) = Some g"
    by (auto simp: contains_iff_search)
  then obtain pre s where u: "url r = pre @ s" and m: "match_entity s = Some g"
    using re_search_entity_Some by blast
  from match_entity_Some [OF m] obtain ds post where
    "s = ''entity=IE'' @ ds @ post" "ds \<noteq> []" "\<forall>c\<in>set ds. is_digit c" "g = ''IE'' @ ds"
    by blast
  with u g assms get_pid_answer [of srv handle_url r w]
  show "\<exists>pre ds post. url r = pre @ ''entity=IE'' @ ds @ post \<and> ds \<noteq> []
          \<and> (\<forall>c\<in>set ds. is_digit c) \<and> fst (get_pid srv handle_url w) = Inr (Some (''IE'' @ ds))"
    by auto
next
  fix pre ds post
  assume "url r = pre @ ''entity=IE'' @ ds @ post \<and> ds \<noteq> []
               \<and> (\<forall>c\<in>set ds. is_digit c) \<and> (post = [] \<or> \<not> is_digit (hd post))
               \<and> \<not> spec_contains_entity (pre @ ''entity=IE'')"
  then show "fst (get_pid srv handle_url w) = Inr (Some (''IE'' @ ds))"
    using assms get_pid_answer [of srv handle_url r w] re_search_entity_first [of ds post pre] by simp
qed

theorem get_pid_returns_witness:
  "ex_redirect ''https://viewer.slv.vic.gov.au/?entity=IE12345'' ''http://handle.slv.vic.gov.au/10381/1'' []
     = Some (ex_response\<lparr>url := ''https://viewer.slv.vic.gov.au/?entity=IE12345''\<rparr>)
   \<and> \<not> spec_contains_entity (''https://viewer.slv.vic.gov.au/?'' @ ''entity=IE'')
   \<and> fst (get_pid (ex_redirect ''https://viewer.slv.vic.gov.au/?entity=IE12345'')
            ''http://handle.slv.vic.gov.au/10381/1'' world0) = Inr (Some ''IE12345'')
   \<and> \<not> spec_contains_entity ''https://www.slv.vic.gov.au/search-discover''
   \<and> fst (get_pid (ex_redirect ''https://www.slv.vic.gov.au/search-discover'')
            ''http://handle.slv.vic.gov.au/10381/0'' world0) = Inr None"
proof -
  have a: "ex_redirect ''https://viewer.slv.vic.gov.au/?entity=IE12345''
             ''http://handle.slv.vic.gov.au/10381/1'' []
           = Some (ex_response\<lparr>url := ''https://viewer.slv.vic.gov.au/?entity=IE12345''\<rparr>)"
    by (simp add: ex_redirect_def)
  have b: "ex_redirect ''https://www.slv.vic.gov.au/search-discover''
             ''http://handle.slv.vic.gov.au/10381/0'' []
           = Some (ex_response\<lparr>url := ''https://www.slv.vic.gov.au/search-discover''\<rparr>)"
    by (simp add: ex_redirect_def)
  have n1: "\<not> spec_contains_entity (''https://viewer.slv.vic.gov.au/?'' @ ''entity=IE'')"
    by (simp add: contains_iff_search match_entity_def)
  have n2: "\<not> spec_contains_entity ''https://www.slv.vic.gov.au/search-discover''"
    by (simp add: contains_iff_search match_entity_def)
  have d: "\<forall>c\<in>set ''12345''. is_digit c"
    by (simp add: is_digit_def)
  have u: "url (ex_response\<lparr>url := ''https://viewer.slv.vic.gov.au/?entity=IE12345''\<rparr>)
             = ''https://viewer.slv.vic.gov.au/?'' @ ''entity=IE'' @ ''12345'' @ []"
    by simp
  from get_pid_returns [of "ex_redirect ''https://viewer.slv.vic.gov.au/?entity=IE12345''"
      "''http://handle.slv.vic.gov.au/10381/1''" _ world0, OF a, THEN conjunct2, THEN conjunct2,
      rule_format, of "''https://viewer.slv.vic.gov.au/?''" "''12345''" "[]"]
  have "fst (get_pid (ex_redirect ''https://viewer.slv.vic.gov.au/?entity=IE12345'')
            ''http://handle.slv.vic.gov.au/10381/1'' world0) = Inr (Some (''IE'' @ ''12345''))"
    using u n1 d by blast
  moreover from get_pid_returns [of "ex_redirect ''https://www.slv.vic.gov.au/search-discover''"
      "''http://handle.slv.vic.gov.au/10381/0''" _ world0, OF b]
  have "fst (get_pid (ex_redirect ''https://www.slv.vic.gov.au/search-discover'')
            ''http://handle.slv.vic.gov.au/10381/0'' world0) = Inr None"
    using n2 by (simp add: ex_response_def)
  ultimately show ?thesis
    using a n1 n2 by simp
qed

theorem get_pid_no_error_counterexample:
  "\<not> spec_contains_entity ''https://www.slv.vic.gov.au/search-discover''
   \<and> fst (get_pid (ex_redirect ''https://www.slv.vic.gov.au/search-discover'')
            ''http://handle.slv.vic.gov.au/10381/0'' world0) = Inr None"
proof -
  have "\<not> spec_contains_entity ''https://www.slv.vic.gov.au/search-discover''"
    by (simp add: contains_iff_search match_entity_def)
  moreover have "fst (get_pid (ex_redirect ''https://www.slv.vic.gov.au/search-discover'')
            ''http://handle.slv.vic.gov.au/10381/0'' world0) = Inr None"
    by (simp add: get_pid_def requests_get_def ex_redirect_def ex_response_def match_entity_def)
  ultimately show ?thesis by simp
qed


section \<open>Getting the manifest\<close>

lemma fetch_manifest_unfold:
  "fetch_manifest sel srv pid w =
     (case srv (manifest_url pid) [] of
        None \<Rightarrow> (Inl RequestException,
          w\<lparr>next_session := Suc (next_session w), jars := (jars w)(next_session w := []),
            requests_log := requests_log w @
              [\<lparr>rq_session = Some (next_session w), rq_url = manifest_url pid, rq_cookies = []\<rparr>]\<rparr>)
      | Some r \<Rightarrow>
          (case json_body r of None \<Rightarrow> Inl JSONDecodeError | Some m \<Rightarrow> Inr (next_session w, m),
           w\<lparr>next_session := Suc (next_session w),
             jars := (jars w)(next_session w := [(manifest_url pid, r)]),
             requests_log := requests_log w @
               [\<lparr>rq_session = Some (next_session w), rq_url = manifest_url pid, rq_cookies = []\<rparr>]\<rparr>))"
  by (simp add: fetch_manifest_def new_session_def session_get_def jar_cookies_def Let_def
      split: option.splits)

text \<open>
  C8, as the code has it. The manifest is requested at the URL made of the fixed
  prefix, the identifier and \<^verbatim>\<open>/manifest\<close>, through a session just created. The call
  fails when the request raises and, with \<^verbatim>\<open>JSONDecodeError\<close>, when the body is not
  JSON; when the body is JSON the parsed document is returned, whatever the status of the
  answer.
\<close>

theorem fetch_manifest_result:
  "manifest_url pid
     = ''https://rosetta.slv.vic.gov.au/delivery/iiif/presentation/2.1/'' @ fmt_str pid @ ''/manifest''
   \<and> requests_log (snd (fetch_manifest sel srv pid w))
       = requests_log w @
           [\<lparr>rq_session = Some (next_session w), rq_url = manifest_url pid, rq_cookies = []\<rparr>]
   \<and> (srv (manifest_url pid) [] = None \<longrightarrow> fst (fetch_manifest sel srv pid w) = Inl RequestException)
   \<and> (\<forall>r. srv (manifest_url pid) [] = Some r \<and> json_body r = None
         \<longrightarrow> fst (fetch_manifest sel srv pid w) = Inl JSONDecodeError)
   \<and> (\<forall>r m. srv (manifest_url pid) [] = Some r \<and> json_body r = Some m
         \<longrightarrow> fst (fetch_manifest sel srv pid w) = Inr (next_session w, m))"
  by (auto simp: fetch_manifest_unfold manifest_url_def split: option.splits)

theorem fetch_manifest_result_witness:
  "ex_server_refusing (manifest_url (Some ''IE8'')) []
     = Some (ex_response\<lparr>status_code := 404, json_body := Some (JObj [(''error'', JStr ''not found'')])\<rparr>)
   \<and> fst (fetch_manifest ex_policy ex_server_refusing (Some ''IE8'') world0)
       = Inr (0, JObj [(''error'', JStr ''not found'')])
   \<and> ex_server (manifest_url (Some ''IE9'')) []
       = Some (ex_response\<lparr>url := manifest_url (Some ''IE9''), status_code := 404,
                            content := ''Not Found''\<rparr>)
   \<and> fst (fetch_manifest ex_policy ex_server (Some ''IE9'') world0) = Inl JSONDecodeError
   \<and> ex_server_refusing (manifest_url (Some ''IE9'')) [] = None
   \<and> fst (fetch_manifest ex_policy ex_server_refusing (Some ''IE9'') world0) = Inl RequestException"
proof -
  have a: "ex_server_refusing (manifest_url (Some ''IE8'')) []
     = Some (ex_response\<lparr>status_code := 404, json_body := Some (JObj [(''error'', JStr ''not found'')])\<rparr>)"
    by (simp add: ex_server_refusing_def manifest_url_def fmt_str_def)
  have b: "ex_server (manifest_url (Some ''IE9'')) []
       = Some (ex_response\<lparr>url := manifest_url (Some ''IE9''), status_code := 404,
                            content := ''Not Found''\<rparr>)"
    by (simp add: ex_server_def manifest_url_def fmt_str_def)
  have c: "ex_server_refusing (manifest_url (Some ''IE9'')) [] = None"
    by (simp add: ex_server_refusing_def manifest_url_def fmt_str_def)
  show ?thesis
    using fetch_manifest_result [of "Some ''IE8''" ex_policy ex_server_refusing world0]
      fetch_manifest_result [of "Some ''IE9''" ex_policy ex_server world0]
      fetch_manifest_result [of "Some ''IE9''" ex_policy ex_server_refusing world0] a b c
    by (simp add: ex_response_def world0_def)
qed

theorem fetch_manifest_status_counterexample:
  "map_option status_code (ex_server_refusing (manifest_url (Some ''IE8'')) []) = Some 404
   \<and> fst (fetch_manifest ex_policy ex_server_refusing (Some ''IE8'') world0)
       = Inr (0, JObj [(''error'', JStr ''not found'')])"
  by (simp add: fetch_manifest_unfold ex_server_refusing_def manifest_url_def fmt_str_def
      ex_response_def world0_def)


section \<open>Page numbers and file names\<close>

lemma digit_char_inj: "m < 10 \<Longrightarrow> n < 10 \<Longrightarrow> digit_char m = digit_char n \<Longrightarrow> m = n"
  unfolding digit_char_def
  by (subst (asm) nth_eq_iff_index_eq) simp_all

lemma str_nat_small: "n < 10 \<Longrightarrow> str_nat n = [digit_char n]"
  by (subst str_nat.simps) simp

lemma str_nat_large: "\<not> n < 10 \<Longrightarrow> str_nat n = str_nat (n div 10) @ [digit_char (n mod 10)]"
  by (subst str_nat.simps) simp

lemma str_nat_length: "(length (str_nat n) = 1) = (n < 10)"
proof (cases "n < 10")
  case True
  then show ?thesis by (simp add: str_nat_small)
next
  case False
  have "str_nat (n div 10) \<noteq> []" using str_nat_hd by blast
  then have "0 < length (str_nat (n div 10))" by simp
  with False show ?thesis by (simp add: str_nat_large)
qed

lemma str_nat_inj: "str_nat m = str_nat n \<Longrightarrow> m = n"
proof (induction m arbitrary: n rule: str_nat.induct)
  case (1 m)
  have same: "(m < 10) = (n < 10)"
    using str_nat_length [of m] str_nat_length [of n] "1.prems" by simp
  show ?case
  proof (cases "m < 10")
    case True
    with same "1.prems" show ?thesis
      by (simp add: str_nat_small digit_char_inj)
  next
    case False
    with same have n: "\<not> n < 10" by simp
    from "1.prems" False n have "str_nat (m div 10) = str_nat (n div 10)"
      and d: "digit_char (m mod 10) = digit_char (n mod 10)"
      by (simp_all add: str_nat_large)
    then have "m div 10 = n div 10" using "1.IH" False by blast
    moreover have "m mod 10 = n mod 10" using d by (intro digit_char_inj) simp_all
    ultimately show ?thesis by (metis div_mult_mod_eq)
  qed
qed

lemma page_filename_inj: "(page_filename pid i t = page_filename pid j t) = (i = j)"
  by (auto simp: page_filename_def dest: str_nat_inj)


section \<open>Requests through a session\<close>

lemma session_get_raises:
  "srv u (jar_cookies sel (jars w s) u) = None \<Longrightarrow>
   session_get sel srv s u w =
     (Inl RequestException,
      w\<lparr>requests_log := requests_log w @ [\<lparr>rq_session = Some s, rq_url = u, rq_cookies = jar_cookies sel (jars w s) u\<rparr>]\<rparr>)"
  by (simp add: session_get_def Let_def)

lemma session_get_answer:
  "srv u (jar_cookies sel (jars w s) u) = Some r \<Longrightarrow>
   session_get sel srv s u w =
     (Inr r,
      w\<lparr>requests_log := requests_log w @ [\<lparr>rq_session = Some s, rq_url = u, rq_cookies = jar_cookies sel (jars w s) u\<rparr>],
        jars := (jars w)(s := jars w s @ [(u, r)])\<rparr>)"
  by (simp add: session_get_def Let_def)



lemma download_pages_step_raises:
  "srv (construct_image_url rp x t mw mh)
            (jar_cookies sel (jars w s) (construct_image_url rp x t mw mh)) = None \<Longrightarrow>
   download_pages rp sel srv s pid t mw mh index (x # rest) w =
     (Inl RequestException,
      w\<lparr>requests_log := requests_log w @
          [\<lparr>rq_session = Some s, rq_url = construct_image_url rp x t mw mh,
            rq_cookies = jar_cookies sel (jars w s)
                   (construct_image_url rp x t mw mh)\<rparr>]\<rparr>)"
  by (simp add: session_get_raises)

lemma download_pages_step_answer:
  assumes "srv (construct_image_url rp x t mw mh)
            (jar_cookies sel (jars w s) (construct_image_url rp x t mw mh)) = Some r"
  shows "\<exists>w2. download_pages rp sel srv s pid t mw mh index (x # rest) w
                = download_pages rp sel srv s pid t mw mh (Suc index) rest w2
          \<and> files w2 = (files w)(page_filename pid index t \<mapsto> content r)
          \<and> jars w2 = (jars w)(s := jars w s @ [(construct_image_url rp x t mw mh, r)])
          \<and> requests_log w2 = requests_log w @
               [\<lparr>rq_session = Some s, rq_url = construct_image_url rp x t mw mh,
                 rq_cookies = jar_cookies sel (jars w s)
                   (construct_image_url rp x t mw mh)\<rparr>]
          \<and> next_session w2 = next_session w \<and> dirs w2 = dirs w"
proof -
  let ?w1 = "w\<lparr>requests_log := requests_log w @
               [\<lparr>rq_session = Some s, rq_url = construct_image_url rp x t mw mh,
                 rq_cookies = jar_cookies sel (jars w s)
                   (construct_image_url rp x t mw mh)\<rparr>],
              jars := (jars w)(s := jars w s @ [(construct_image_url rp x t mw mh, r)])\<rparr>"
  let ?w2 = "let w2 = write_bytes (page_filename pid index t) (content r) ?w1
             in if t \<in> set [''jpg'', ''png'']
                then display_html (page_html (page_filename pid index t)) w2 else w2"
  have "download_pages rp sel srv s pid t mw mh index (x # rest) w
          = download_pages rp sel srv s pid t mw mh (Suc index) rest ?w2"
    using assms by (simp add: session_get_answer)
  moreover have "files ?w2 = (files w)(page_filename pid index t \<mapsto> content r)"
    by (simp add: write_bytes_def display_html_def Let_def)
  moreover have "jars ?w2 = (jars w)(s := jars w s @ [(construct_image_url rp x t mw mh, r)])"
    by (simp add: write_bytes_def display_html_def Let_def)
  moreover have "requests_log ?w2 = requests_log w @
               [\<lparr>rq_session = Some s, rq_url = construct_image_url rp x t mw mh,
                 rq_cookies = jar_cookies sel (jars w s)
                   (construct_image_url rp x t mw mh)\<rparr>]"
    by (simp add: write_bytes_def display_html_def Let_def)
  moreover have "next_session ?w2 = next_session w \<and> dirs ?w2 = dirs w"
    by (simp add: write_bytes_def display_html_def Let_def)
  ultimately show ?thesis by blast
qed


lemmas ex_eval =
  session_get_def Let_def construct_image_url_def fmt_json_def size_str_def truthy_def
  world0_def write_bytes_def display_html_def page_filename_def fmt_str_def str_nat.simps
  digit_char_def ex_response_def jar_cookies_def ex_policy_def host_of_def




section \<open>One session for the manifest and the images\<close>

lemma get_pid_unfold:
  "get_pid srv h w =
     (case srv h [] of None \<Rightarrow> Inl RequestException | Some r \<Rightarrow> Inr (re_search_entity (url r)),
      w\<lparr>requests_log := requests_log w @ [\<lparr>rq_session = None, rq_url = h, rq_cookies = []\<rparr>]\<rparr>)"
  by (simp add: get_pid_def requests_get_def Let_def split: option.splits)

lemma image_requests_Nil: "image_requests rp t mw mh []"
  by (simp add: image_requests_def)

lemma image_requests_Cons:
  "image_requests rp t mw mh qs \<Longrightarrow>
   image_requests rp t mw mh
     (\<lparr>rq_session = a, rq_url = construct_image_url rp x t mw mh, rq_cookies = c\<rparr> # qs)"
  unfolding image_requests_def by auto

lemma asks_for_Nil: "asks_for rp t mw mh srv [] []"
  by (simp add: asks_for_def)

lemma asks_for_raised:
  "srv (construct_image_url rp x t mw mh) c = None \<Longrightarrow>
   asks_for rp t mw mh srv (x # rest)
     [\<lparr>rq_session = a, rq_url = construct_image_url rp x t mw mh, rq_cookies = c\<rparr>]"
  by (simp add: asks_for_def)

lemma asks_for_Cons:
  "asks_for rp t mw mh srv rest qs \<Longrightarrow>
   asks_for rp t mw mh srv (x # rest)
     (\<lparr>rq_session = a, rq_url = construct_image_url rp x t mw mh, rq_cookies = c\<rparr> # qs)"
  by (auto simp: asks_for_def)

lemma session_requests_session:
  "session_requests sel srv s jar qs \<Longrightarrow> q \<in> set qs \<Longrightarrow> rq_session q = Some s"
proof (induction qs arbitrary: jar)
  case Nil
  then show ?case by simp
next
  case (Cons a qs)
  show ?case
  proof (cases "q = a")
    case True
    with Cons.prems(1) show ?thesis by simp
  next
    case False
    with Cons.prems(2) have q: "q \<in> set qs" by simp
    show ?thesis
    proof (cases "srv (rq_url a) (rq_cookies a)")
      case None
      with Cons.prems(1) q show ?thesis by simp
    next
      case (Some r)
      with Cons.prems(1) have "session_requests sel srv s (jar @ [(rq_url a, r)]) qs" by simp
      from Cons.IH [OF this q] show ?thesis .
    qed
  qed
qed

lemma session_requests_later:
  "session_requests sel srv s jar qs \<Longrightarrow> jar \<noteq> [] \<Longrightarrow> q \<in> set qs \<Longrightarrow>
   \<exists>later. rq_cookies q = sel (jar @ later) (rq_url q)"
proof (induction qs arbitrary: jar)
  case Nil
  then show ?case by simp
next
  case (Cons a qs)
  show ?case
  proof (cases "q = a")
    case True
    from Cons.prems(1) have "rq_cookies a = jar_cookies sel jar (rq_url a)" by simp
    with Cons.prems(2) have "rq_cookies a = sel (jar @ []) (rq_url a)"
      by (cases jar) (simp_all add: jar_cookies_def)
    with True show ?thesis by blast
  next
    case False
    with Cons.prems(3) have q: "q \<in> set qs" by simp
    show ?thesis
    proof (cases "srv (rq_url a) (rq_cookies a)")
      case None
      with Cons.prems(1) q show ?thesis by simp
    next
      case (Some r)
      with Cons.prems(1) have "session_requests sel srv s (jar @ [(rq_url a, r)]) qs" by simp
      from Cons.IH [OF this _ q] obtain later where
        "rq_cookies q = sel ((jar @ [(rq_url a, r)]) @ later) (rq_url q)" by auto
      then have "rq_cookies q = sel (jar @ ((rq_url a, r) # later)) (rq_url q)" by simp
      then show ?thesis by blast
    qed
  qed
qed

lemma session_requests_sent_from:
  "session_requests sel srv s jar qs \<Longrightarrow> jar \<noteq> [] \<Longrightarrow> sent_from sel jar qs"
  unfolding sent_from_def by (blast dest: session_requests_later)

lemma download_pages_requests:
  "\<exists>qs. requests_log (snd (download_pages rp sel srv s pid t mw mh index ids w)) = requests_log w @ qs
      \<and> image_requests rp t mw mh qs
      \<and> asks_for rp t mw mh srv ids qs
      \<and> session_requests sel srv s (jars w s) qs
      \<and> next_session (snd (download_pages rp sel srv s pid t mw mh index ids w)) = next_session w"
proof (induction ids arbitrary: index w)
  case Nil
  then show ?case by (simp add: image_requests_Nil asks_for_Nil)
next
  case (Cons x rest)
  let ?u = "construct_image_url rp x t mw mh"
  let ?q = "\<lparr>rq_session = Some s, rq_url = ?u, rq_cookies = jar_cookies sel (jars w s) ?u\<rparr>"
  show ?case
  proof (cases "srv ?u (jar_cookies sel (jars w s) ?u)")
    case None
    have "requests_log (snd (download_pages rp sel srv s pid t mw mh index (x # rest) w))
            = requests_log w @ [?q]"
      and "next_session (snd (download_pages rp sel srv s pid t mw mh index (x # rest) w))
            = next_session w"
      using None by (simp_all add: session_get_raises)
    moreover have "image_requests rp t mw mh [?q]"
      by (intro image_requests_Cons image_requests_Nil)
    moreover have "session_requests sel srv s (jars w s) [?q]"
      using None by simp
    moreover have "asks_for rp t mw mh srv (x # rest) [?q]"
      using None by (rule asks_for_raised)
    ultimately show ?thesis
      by (intro exI [of _ "[?q]"]) simp
  next
    case (Some r)
    from download_pages_step_answer [of srv rp x t mw mh sel w s r pid index rest] Some
    obtain w2 where
      d: "download_pages rp sel srv s pid t mw mh index (x # rest) w
            = download_pages rp sel srv s pid t mw mh (Suc index) rest w2"
      and j: "jars w2 = (jars w)(s := jars w s @ [(?u, r)])"
      and l: "requests_log w2 = requests_log w @ [?q]"
      and n: "next_session w2 = next_session w"
      by blast
    from Cons.IH [of "Suc index" w2] obtain qs where
      a: "requests_log (snd (download_pages rp sel srv s pid t mw mh (Suc index) rest w2))
            = requests_log w2 @ qs"
      and b: "image_requests rp t mw mh qs"
      and b'': "asks_for rp t mw mh srv rest qs"
      and b': "session_requests sel srv s (jars w2 s) qs"
      and c: "next_session (snd (download_pages rp sel srv s pid t mw mh (Suc index) rest w2))
            = next_session w2"
      by blast
    have "requests_log (snd (download_pages rp sel srv s pid t mw mh index (x # rest) w))
            = requests_log w @ (?q # qs)"
      unfolding d a l by simp
    moreover have "image_requests rp t mw mh (?q # qs)"
      using b by (rule image_requests_Cons)
    moreover have "session_requests sel srv s (jars w s) (?q # qs)"
      using b' Some by (simp add: j)
    moreover have "asks_for rp t mw mh srv (x # rest) (?q # qs)"
      using b'' by (rule asks_for_Cons)
    moreover have "next_session (snd (download_pages rp sel srv s pid t mw mh index (x # rest) w))
            = next_session w"
      unfolding d c n ..
    ultimately show ?thesis
      by (intro exI [of _ "?q # qs"]) simp
  qed
qed

lemma download_image_unfold:
  "download_image rp sel srv h t mw mh w =
     (case srv h [] of
        None \<Rightarrow> (Inl RequestException,
          w\<lparr>requests_log := requests_log w @ [\<lparr>rq_session = None, rq_url = h, rq_cookies = []\<rparr>]\<rparr>)
      | Some hr \<Rightarrow>
          (case fetch_manifest sel srv (re_search_entity (url hr))
                  (w\<lparr>requests_log := requests_log w @
                       [\<lparr>rq_session = None, rq_url = h, rq_cookies = []\<rparr>]\<rparr>) of
             (Inl e, w2) \<Rightarrow> (Inl e, w2)
           | (Inr (s, manifest), w2) \<Rightarrow>
               (case get_image_ids manifest of
                  Inl e \<Rightarrow> (Inl e, w2)
                | Inr image_ids \<Rightarrow>
                    download_pages rp sel srv s (re_search_entity (url hr)) t mw mh 0 image_ids
                      (mkdir ''images'' w2))))"
  by (simp add: download_image_def get_pid_unfold split: option.splits)

lemma download_image_unanswered:
  assumes "srv h [] = None"
  shows "requests_log (snd (download_image rp sel srv h t mw mh w))
           = requests_log w @ [\<lparr>rq_session = None, rq_url = h, rq_cookies = []\<rparr>]"
    and "next_session (snd (download_image rp sel srv h t mw mh w)) = next_session w"
  using assms by (simp_all add: download_image_unfold)

text \<open>The requests of a call whose Handle request is answered.\<close>

lemma download_image_log:
  assumes hr: "srv h [] = Some hr"
  shows "\<exists>images. requests_log (snd (download_image rp sel srv h t mw mh w))
             = requests_log w @
                 [\<lparr>rq_session = None, rq_url = h, rq_cookies = []\<rparr>,
                  \<lparr>rq_session = Some (next_session w),
                   rq_url = manifest_url (re_search_entity (url hr)), rq_cookies = []\<rparr>] @ images
     \<and> image_requests rp t mw mh images
     \<and> asks_for rp t mw mh srv (read_ids srv (re_search_entity (url hr))) images
     \<and> session_requests sel srv (next_session w) []
          (\<lparr>rq_session = Some (next_session w),
            rq_url = manifest_url (re_search_entity (url hr)), rq_cookies = []\<rparr> # images)
     \<and> next_session (snd (download_image rp sel srv h t mw mh w)) = Suc (next_session w)"
  (is "\<exists>images. ?L images \<and> ?I images \<and> ?A images \<and> ?S images \<and> ?N")
proof -
  let ?pid = "re_search_entity (url hr)"
  let ?hq = "\<lparr>rq_session = None, rq_url = h, rq_cookies = []\<rparr>"
  let ?mq = "\<lparr>rq_session = Some (next_session w), rq_url = manifest_url ?pid, rq_cookies = []\<rparr>"
  let ?w1 = "w\<lparr>requests_log := requests_log w @ [?hq]\<rparr>"
  have quiet: "?L [] \<and> ?I [] \<and> ?A [] \<and> ?S [] \<and> ?N"
    if "requests_log (snd (download_image rp sel srv h t mw mh w)) = requests_log w @ [?hq, ?mq]"
      and "next_session (snd (download_image rp sel srv h t mw mh w)) = Suc (next_session w)"
      and "read_ids srv ?pid = []"
    using that by (simp add: image_requests_Nil asks_for_Nil jar_cookies_def split: option.splits)
  show ?thesis
  proof (cases "srv (manifest_url ?pid) []")
    case None
    with hr have "?L [] \<and> ?I [] \<and> ?A [] \<and> ?S [] \<and> ?N"
      by (intro quiet) (simp_all add: download_image_unfold fetch_manifest_unfold read_ids_def)
    then show ?thesis by (rule exI)
  next
    case r: (Some r)
    let ?w2 = "?w1\<lparr>next_session := Suc (next_session ?w1),
             jars := (jars ?w1)(next_session ?w1 := [(manifest_url ?pid, r)]),
             requests_log := requests_log ?w1 @
               [\<lparr>rq_session = Some (next_session ?w1), rq_url = manifest_url ?pid, rq_cookies = []\<rparr>]\<rparr>"
    show ?thesis
    proof (cases "json_body r")
      case None
      with hr r have "?L [] \<and> ?I [] \<and> ?A [] \<and> ?S [] \<and> ?N"
        by (intro quiet) (simp_all add: download_image_unfold fetch_manifest_unfold read_ids_def)
      then show ?thesis by (rule exI)
    next
      case m: (Some m)
      show ?thesis
      proof (cases "get_image_ids m")
        case (Inl e)
        with hr r m have "?L [] \<and> ?I [] \<and> ?A [] \<and> ?S [] \<and> ?N"
          by (intro quiet) (simp_all add: download_image_unfold fetch_manifest_unfold read_ids_def)
        then show ?thesis by (rule exI)
      next
        case (Inr ids)
        let ?w3 = "mkdir ''images'' ?w2"
        have d: "download_image rp sel srv h t mw mh w
                  = download_pages rp sel srv (next_session w) ?pid t mw mh 0 ids ?w3"
          using hr r m Inr by (simp add: download_image_unfold fetch_manifest_unfold)
        from download_pages_requests [of rp sel srv "next_session w" ?pid t mw mh 0 ids ?w3]
        obtain qs where
          a: "requests_log (snd (download_pages rp sel srv (next_session w) ?pid t mw mh 0 ids ?w3))
                = requests_log ?w3 @ qs"
          and b: "image_requests rp t mw mh qs"
          and b'': "asks_for rp t mw mh srv ids qs"
          and b': "session_requests sel srv (next_session w) (jars ?w3 (next_session w)) qs"
          and n: "next_session (snd (download_pages rp sel srv (next_session w) ?pid t mw mh 0 ids ?w3))
                = next_session ?w3"
          by blast
        have j: "jars ?w3 (next_session w) = [(manifest_url ?pid, r)]"
          by (simp add: mkdir_def)
        have "?L qs"
          unfolding d a by (simp add: mkdir_def)
        moreover have "?S qs"
          using b' r unfolding j by (simp add: jar_cookies_def)
        moreover have "?N"
          unfolding d n by (simp add: mkdir_def)
        moreover have "?A qs"
          using b'' r m Inr by (simp add: read_ids_def)
        ultimately have "?L qs \<and> ?I qs \<and> ?A qs \<and> ?S qs \<and> ?N"
          using b by (intro conjI)
        then show ?thesis by (rule exI)
      qed
    qed
  qed
qed

lemma download_image_sessions_known:
  assumes "sessions_known w"
  shows "sessions_known (snd (download_image rp sel srv h t mw mh w))"
proof (cases "srv h []")
  case None
  from download_image_unanswered [of srv h rp sel t mw mh w] None assms show ?thesis
    unfolding sessions_known_def by auto
next
  case (Some hr)
  let ?w' = "snd (download_image rp sel srv h t mw mh w)"
  let ?hq = "\<lparr>rq_session = None, rq_url = h, rq_cookies = []\<rparr>"
  let ?mq = "\<lparr>rq_session = Some (next_session w),
              rq_url = manifest_url (re_search_entity (url hr)), rq_cookies = []\<rparr>"
  from download_image_log [of srv h hr rp sel t mw mh w] Some obtain images where
    l: "requests_log ?w' = requests_log w @ [?hq, ?mq] @ images"
    and i: "session_requests sel srv (next_session w) [] (?mq # images)"
    and n: "next_session ?w' = Suc (next_session w)"
    by blast
  show ?thesis
    unfolding sessions_known_def l n
  proof (intro ballI allI impI)
    fix q s
    assume q: "q \<in> set (requests_log w @ [?hq, ?mq] @ images)"
      and s: "rq_session q = Some s"
    from q consider "q \<in> set (requests_log w)" | "q = ?hq" | "q \<in> set (?mq # images)"
      by auto
    then show "s < Suc (next_session w)"
    proof cases
      case 1
      with assms s have "s < next_session w" unfolding sessions_known_def by blast
      then show ?thesis by simp
    next
      case 2
      with s show ?thesis by simp
    next
      case 3
      from session_requests_session [OF i 3] s show ?thesis by simp
    qed
  qed
qed

lemma sessions_known_fresh:
  "sessions_known w \<Longrightarrow> \<forall>q\<in>set (requests_log w). rq_session q \<noteq> Some (next_session w)"
  unfolding sessions_known_def by auto

text \<open>
  C1, as the code has it. A call of \<^verbatim>\<open>download_image\<close> first asks for the Handle,
  outside any session; when that request raises the call ends there. When it is answered,
  the call creates a session, which no request logged before went through, and asks for
  the manifest through it, with no cookie, whatever the world held before. Every request
  after that goes through the same session and asks for an image: one for each identifier
  read from the manifest, in order, up to the first that raises. The jar of the session
  holds the answers of this call and nothing else: each request carries exactly what the
  jar, made of the answer to the manifest request and of the answers to the image
  requests before it, sends to its URL. Whether a cookie the manifest answer set is among
  them is decided by the rule of the jar for that URL, not by the notebook.
\<close>

theorem session_reuse:
  "(srv h [] = None \<longrightarrow>
      requests_log (snd (download_image rp sel srv h t mw mh w))
        = requests_log w @ [\<lparr>rq_session = None, rq_url = h, rq_cookies = []\<rparr>])
   \<and> (\<forall>hr. srv h [] = Some hr \<longrightarrow>
        (\<exists>images. requests_log (snd (download_image rp sel srv h t mw mh w))
             = requests_log w @
                 [\<lparr>rq_session = None, rq_url = h, rq_cookies = []\<rparr>,
                  \<lparr>rq_session = Some (next_session w),
                   rq_url = manifest_url (re_search_entity (url hr)), rq_cookies = []\<rparr>] @ images
           \<and> image_requests rp t mw mh images
           \<and> asks_for rp t mw mh srv (read_ids srv (re_search_entity (url hr))) images
           \<and> session_requests sel srv (next_session w) []
                (\<lparr>rq_session = Some (next_session w),
                  rq_url = manifest_url (re_search_entity (url hr)), rq_cookies = []\<rparr> # images)
           \<and> (\<forall>mr. srv (manifest_url (re_search_entity (url hr))) [] = Some mr \<longrightarrow>
                 sent_from sel [(manifest_url (re_search_entity (url hr)), mr)] images)))
   \<and> (sessions_known w \<longrightarrow>
         sessions_known (snd (download_image rp sel srv h t mw mh w))
         \<and> (\<forall>q\<in>set (requests_log w). rq_session q \<noteq> Some (next_session w)))"
proof (intro conjI impI allI)
  assume "srv h [] = None"
  then show "requests_log (snd (download_image rp sel srv h t mw mh w))
        = requests_log w @ [\<lparr>rq_session = None, rq_url = h, rq_cookies = []\<rparr>]"
    by (rule download_image_unanswered)
next
  fix hr
  assume hr: "srv h [] = Some hr"
  let ?mu = "manifest_url (re_search_entity (url hr))"
  let ?mq = "\<lparr>rq_session = Some (next_session w), rq_url = ?mu, rq_cookies = []\<rparr>"
  from download_image_log [of srv h hr rp sel t mw mh w] hr obtain images where
    l: "requests_log (snd (download_image rp sel srv h t mw mh w))
          = requests_log w @ [\<lparr>rq_session = None, rq_url = h, rq_cookies = []\<rparr>, ?mq] @ images"
    and i: "image_requests rp t mw mh images"
    and a: "asks_for rp t mw mh srv (read_ids srv (re_search_entity (url hr))) images"
    and s: "session_requests sel srv (next_session w) [] (?mq # images)"
    by blast
  have "sent_from sel [(?mu, mr)] images" if "srv ?mu [] = Some mr" for mr
  proof -
    from s that have "session_requests sel srv (next_session w) [(?mu, mr)] images"
      by simp
    then show ?thesis
      by (rule session_requests_sent_from) simp
  qed
  with l i a s show "\<exists>images. requests_log (snd (download_image rp sel srv h t mw mh w))
             = requests_log w @ [\<lparr>rq_session = None, rq_url = h, rq_cookies = []\<rparr>, ?mq] @ images
           \<and> image_requests rp t mw mh images
           \<and> asks_for rp t mw mh srv (read_ids srv (re_search_entity (url hr))) images
           \<and> session_requests sel srv (next_session w) [] (?mq # images)
           \<and> (\<forall>mr. srv ?mu [] = Some mr \<longrightarrow> sent_from sel [(?mu, mr)] images)"
    by (intro exI [of _ images] conjI allI impI)
next
  assume "sessions_known w"
  then show "sessions_known (snd (download_image rp sel srv h t mw mh w))"
    by (rule download_image_sessions_known)
next
  assume "sessions_known w"
  then show "\<forall>q\<in>set (requests_log w). rq_session q \<noteq> Some (next_session w)"
    by (rule sessions_known_fresh)
qed


lemma ex_server_pid:
  "get_pid ex_server ''http://handle.slv.vic.gov.au/10381/25896'' w
     = (Inr (Some ''IE1164978''),
        w\<lparr>requests_log := requests_log w @
            [\<lparr>rq_session = None, rq_url = ''http://handle.slv.vic.gov.au/10381/25896'',
              rq_cookies = []\<rparr>]\<rparr>)"
  by (simp add: get_pid_unfold ex_server_def ex_response_def match_entity_def is_digit_def)

lemma ex_manifest_ids:
  "get_image_ids (ex_manifest [ex_canvas ''https://img.example/service1''])
     = Inr [JStr ''https://img.example/service1'']"
  by (simp add: get_image_ids_def thn_def subscript_key_def subscript_zero_def iterate_def
      canvas_image_id_def ex_manifest_def ex_canvas_def)

lemma ex_server_run:
  "fst (download_image no_repr ex_policy ex_server ''http://handle.slv.vic.gov.au/10381/25896''
          ''jpg'' None None w) = Inr ()"
  "requests_log (snd (download_image no_repr ex_policy ex_server
          ''http://handle.slv.vic.gov.au/10381/25896'' ''jpg'' None None w))
     = requests_log w @
         [\<lparr>rq_session = None, rq_url = ''http://handle.slv.vic.gov.au/10381/25896'',
           rq_cookies = []\<rparr>,
          \<lparr>rq_session = Some (next_session w),
           rq_url = ''https://rosetta.slv.vic.gov.au/delivery/iiif/presentation/2.1/IE1164978/manifest'',
           rq_cookies = []\<rparr>,
          \<lparr>rq_session = Some (next_session w),
           rq_url = ''https://img.example/service1/full/max/0/default.jpg'',
           rq_cookies = []\<rparr>]"
  "files (snd (download_image no_repr ex_policy ex_server
          ''http://handle.slv.vic.gov.au/10381/25896'' ''jpg'' None None w))
     = (files w)(''images/slv-IE1164978-0.jpg'' \<mapsto> ''JPEG'')"
  unfolding download_image_def ex_server_pid
  by (simp_all add: fetch_manifest_unfold manifest_url_def ex_manifest_ids mkdir_def ex_eval
      ex_server_def)

lemma ex_server_cookies_pid:
  "get_pid ex_server_cookies ''http://handle.slv.vic.gov.au/10381/9'' w
     = (Inr (Some ''IE9''),
        w\<lparr>requests_log := requests_log w @
            [\<lparr>rq_session = None, rq_url = ''http://handle.slv.vic.gov.au/10381/9'',
              rq_cookies = []\<rparr>]\<rparr>)"
  by (simp add: get_pid_unfold ex_server_cookies_def ex_response_def match_entity_def is_digit_def)

lemma ex_cookies_ids:
  "get_image_ids (ex_manifest [ex_canvas ''https://rosetta.slv.vic.gov.au/iiif/a'',
                               ex_canvas ''https://rosetta.slv.vic.gov.au/iiif/b''])
     = Inr [JStr ''https://rosetta.slv.vic.gov.au/iiif/a'', JStr ''https://rosetta.slv.vic.gov.au/iiif/b'']"
  by (simp add: get_image_ids_def thn_def subscript_key_def subscript_zero_def iterate_def
      canvas_image_id_def ex_manifest_def ex_canvas_def)

lemma ex_server_cookies_run:
  "requests_log (snd (download_image no_repr ex_policy ex_server_cookies
          ''http://handle.slv.vic.gov.au/10381/9'' ''jpg'' None None w))
     = requests_log w @
         [\<lparr>rq_session = None, rq_url = ''http://handle.slv.vic.gov.au/10381/9'', rq_cookies = []\<rparr>,
          \<lparr>rq_session = Some (next_session w),
           rq_url = ''https://rosetta.slv.vic.gov.au/delivery/iiif/presentation/2.1/IE9/manifest'',
           rq_cookies = []\<rparr>,
          \<lparr>rq_session = Some (next_session w),
           rq_url = ''https://rosetta.slv.vic.gov.au/iiif/a/full/max/0/default.jpg'',
           rq_cookies = [(''JSESSIONID'', ''abc'')]\<rparr>,
          \<lparr>rq_session = Some (next_session w),
           rq_url = ''https://rosetta.slv.vic.gov.au/iiif/b/full/max/0/default.jpg'',
           rq_cookies = [(''JSESSIONID'', ''abc''), (''PAGE'', ''1'')]\<rparr>]"
  "next_session (snd (download_image no_repr ex_policy ex_server_cookies
          ''http://handle.slv.vic.gov.au/10381/9'' ''jpg'' None None w)) = Suc (next_session w)"
  unfolding download_image_def ex_server_cookies_pid
  by (simp_all add: fetch_manifest_unfold manifest_url_def ex_cookies_ids mkdir_def ex_eval
      ex_server_cookies_def)

theorem session_reuse_witness:
  "ex_server_cookies ''http://handle.slv.vic.gov.au/10381/9'' []
     = Some (ex_response\<lparr>url := ''https://viewer.slv.vic.gov.au/?entity=IE9''\<rparr>)
   \<and> sessions_known world0
   \<and> sessions_known (snd (download_image no_repr ex_policy ex_server_cookies
        ''http://handle.slv.vic.gov.au/10381/9'' ''jpg'' None None world0))
   \<and> requests_log (snd (download_image no_repr ex_policy ex_server_cookies
        ''http://handle.slv.vic.gov.au/10381/9'' ''jpg'' None None world0))
      = [\<lparr>rq_session = None, rq_url = ''http://handle.slv.vic.gov.au/10381/9'', rq_cookies = []\<rparr>,
         \<lparr>rq_session = Some 0,
          rq_url = ''https://rosetta.slv.vic.gov.au/delivery/iiif/presentation/2.1/IE9/manifest'',
          rq_cookies = []\<rparr>,
         \<lparr>rq_session = Some 0,
          rq_url = ''https://rosetta.slv.vic.gov.au/iiif/a/full/max/0/default.jpg'',
          rq_cookies = [(''JSESSIONID'', ''abc'')]\<rparr>,
         \<lparr>rq_session = Some 0,
          rq_url = ''https://rosetta.slv.vic.gov.au/iiif/b/full/max/0/default.jpg'',
          rq_cookies = [(''JSESSIONID'', ''abc''), (''PAGE'', ''1'')]\<rparr>]
   \<and> drop 4 (requests_log (snd (download_image no_repr ex_policy ex_server_cookies
        ''http://handle.slv.vic.gov.au/10381/9'' ''jpg'' None None
        (snd (download_image no_repr ex_policy ex_server_cookies
           ''http://handle.slv.vic.gov.au/10381/9'' ''jpg'' None None world0)))))
      = [\<lparr>rq_session = None, rq_url = ''http://handle.slv.vic.gov.au/10381/9'', rq_cookies = []\<rparr>,
         \<lparr>rq_session = Some 1,
          rq_url = ''https://rosetta.slv.vic.gov.au/delivery/iiif/presentation/2.1/IE9/manifest'',
          rq_cookies = []\<rparr>,
         \<lparr>rq_session = Some 1,
          rq_url = ''https://rosetta.slv.vic.gov.au/iiif/a/full/max/0/default.jpg'',
          rq_cookies = [(''JSESSIONID'', ''abc'')]\<rparr>,
         \<lparr>rq_session = Some 1,
          rq_url = ''https://rosetta.slv.vic.gov.au/iiif/b/full/max/0/default.jpg'',
          rq_cookies = [(''JSESSIONID'', ''abc''), (''PAGE'', ''1'')]\<rparr>]
   \<and> ex_server_refusing ''http://handle.slv.vic.gov.au/10381/0'' [] = None
   \<and> requests_log (snd (download_image no_repr ex_policy ex_server_refusing
        ''http://handle.slv.vic.gov.au/10381/0'' ''jpg'' None None world0))
      = [\<lparr>rq_session = None, rq_url = ''http://handle.slv.vic.gov.au/10381/0'', rq_cookies = []\<rparr>]"
proof -
  have a: "ex_server_cookies ''http://handle.slv.vic.gov.au/10381/9'' []
     = Some (ex_response\<lparr>url := ''https://viewer.slv.vic.gov.au/?entity=IE9''\<rparr>)"
    by (simp add: ex_server_cookies_def)
  have n: "ex_server_refusing ''http://handle.slv.vic.gov.au/10381/0'' [] = None"
    by (simp add: ex_server_refusing_def)
  have k: "sessions_known world0"
    by (simp add: sessions_known_def world0_def)
  from session_reuse [of ex_server_cookies "''http://handle.slv.vic.gov.au/10381/9''" no_repr
      ex_policy "''jpg''" None None world0, THEN conjunct2, THEN conjunct2] k
  have k': "sessions_known (snd (download_image no_repr ex_policy ex_server_cookies
        ''http://handle.slv.vic.gov.au/10381/9'' ''jpg'' None None world0))"
    by (elim impE conjE)
  from session_reuse [of ex_server_refusing "''http://handle.slv.vic.gov.au/10381/0''" no_repr
      ex_policy "''jpg''" None None world0, THEN conjunct1] n
  have u: "requests_log (snd (download_image no_repr ex_policy ex_server_refusing
        ''http://handle.slv.vic.gov.au/10381/0'' ''jpg'' None None world0))
      = requests_log world0 @
          [\<lparr>rq_session = None, rq_url = ''http://handle.slv.vic.gov.au/10381/0'', rq_cookies = []\<rparr>]"
    by (elim impE)
  show ?thesis
    using a n k k' u by (simp add: ex_server_cookies_run) (simp add: world0_def)
qed

theorem session_reuse_scope_counterexample:
  "map_option set_cookies
     (ex_server ''https://rosetta.slv.vic.gov.au/delivery/iiif/presentation/2.1/IE1164978/manifest'' [])
     = Some [(''JSESSIONID'', ''abc'', ''Path=/'')]
   \<and> requests_log (snd (download_image no_repr ex_policy ex_server
        ''http://handle.slv.vic.gov.au/10381/25896'' ''jpg'' None None world0))
      = [\<lparr>rq_session = None, rq_url = ''http://handle.slv.vic.gov.au/10381/25896'', rq_cookies = []\<rparr>,
         \<lparr>rq_session = Some 0,
          rq_url = ''https://rosetta.slv.vic.gov.au/delivery/iiif/presentation/2.1/IE1164978/manifest'',
          rq_cookies = []\<rparr>,
         \<lparr>rq_session = Some 0, rq_url = ''https://img.example/service1/full/max/0/default.jpg'',
          rq_cookies = []\<rparr>]"
  by (simp add: ex_server_run) (simp add: ex_server_def ex_response_def world0_def)


section \<open>Running the same call again\<close>

text \<open>
  Two runs of the loop whose sessions hold the same jar end the same way and write
  the same files with the same bytes, whatever else the two worlds hold.
\<close>

lemma map_add_twice: "(m ++ W) ++ W = m ++ W"
  by (rule ext) (simp add: map_add_def split: option.splits)

lemma map_upd_add: "m(k \<mapsto> x) ++ W = m ++ ([k \<mapsto> x] ++ W)"
  by (rule ext) (simp add: map_add_def split: option.splits)

lemma download_pages_same:
  assumes "jars w s = jars v s'"
  shows "fst (download_pages rp sel srv s pid t mw mh index ids w)
           = fst (download_pages rp sel srv s' pid t mw mh index ids v)
       \<and> (\<exists>W. files (snd (download_pages rp sel srv s pid t mw mh index ids w)) = files w ++ W
             \<and> files (snd (download_pages rp sel srv s' pid t mw mh index ids v)) = files v ++ W)"
  using assms
proof (induction ids arbitrary: index w v)
  case Nil
  show ?case by (intro conjI exI [of _ Map.empty]) simp_all
next
  case (Cons x rest)
  let ?u = "construct_image_url rp x t mw mh"
  show ?case
  proof (cases "srv ?u (jar_cookies sel (jars w s) ?u)")
    case None
    then have "srv ?u (jar_cookies sel (jars v s') ?u) = None" using Cons.prems by simp
    with None have
      "fst (download_pages rp sel srv s pid t mw mh index (x # rest) w)
         = fst (download_pages rp sel srv s' pid t mw mh index (x # rest) v)"
      "files (snd (download_pages rp sel srv s pid t mw mh index (x # rest) w)) = files w ++ Map.empty"
      "files (snd (download_pages rp sel srv s' pid t mw mh index (x # rest) v)) = files v ++ Map.empty"
      by (simp_all add: session_get_raises)
    then show ?thesis by blast
  next
    case (Some r)
    then have r': "srv ?u (jar_cookies sel (jars v s') ?u) = Some r" using Cons.prems by simp
    from download_pages_step_answer [of srv rp x t mw mh sel w s r pid index rest] Some
    obtain w2 where
      dw: "download_pages rp sel srv s pid t mw mh index (x # rest) w
            = download_pages rp sel srv s pid t mw mh (Suc index) rest w2"
      and fw: "files w2 = (files w)(page_filename pid index t \<mapsto> content r)"
      and jw: "jars w2 = (jars w)(s := jars w s @ [(?u, r)])"
      by blast
    from download_pages_step_answer [of srv rp x t mw mh sel v s' r pid index rest] r'
    obtain v2 where
      dv: "download_pages rp sel srv s' pid t mw mh index (x # rest) v
            = download_pages rp sel srv s' pid t mw mh (Suc index) rest v2"
      and fv: "files v2 = (files v)(page_filename pid index t \<mapsto> content r)"
      and jv: "jars v2 = (jars v)(s' := jars v s' @ [(?u, r)])"
      by blast
    have "jars w2 s = jars v2 s'"
      using Cons.prems by (simp add: jw jv)
    from Cons.IH [OF this, of "Suc index"] obtain W where
      e: "fst (download_pages rp sel srv s pid t mw mh (Suc index) rest w2)
           = fst (download_pages rp sel srv s' pid t mw mh (Suc index) rest v2)"
      and a: "files (snd (download_pages rp sel srv s pid t mw mh (Suc index) rest w2)) = files w2 ++ W"
      and b: "files (snd (download_pages rp sel srv s' pid t mw mh (Suc index) rest v2)) = files v2 ++ W"
      by blast
    let ?W = "[page_filename pid index t \<mapsto> content r] ++ W"
    have "files w2 ++ W = files w ++ ?W" "files v2 ++ W = files v ++ ?W"
      unfolding fw fv by (rule map_upd_add)+
    with a b have
      "files (snd (download_pages rp sel srv s pid t mw mh index (x # rest) w)) = files w ++ ?W"
      "files (snd (download_pages rp sel srv s' pid t mw mh index (x # rest) v)) = files v ++ ?W"
      unfolding dw dv by simp_all
    moreover have "fst (download_pages rp sel srv s pid t mw mh index (x # rest) w)
         = fst (download_pages rp sel srv s' pid t mw mh index (x # rest) v)"
      unfolding dw dv by (rule e)
    ultimately show ?thesis by blast
  qed
qed

lemma download_image_same:
  "fst (download_image rp sel srv h t mw mh w) = fst (download_image rp sel srv h t mw mh v)
   \<and> (\<exists>W. files (snd (download_image rp sel srv h t mw mh w)) = files w ++ W
         \<and> files (snd (download_image rp sel srv h t mw mh v)) = files v ++ W)"
  (is "?E \<and> (\<exists>W. ?F W)")
proof -
  have quiet: ?thesis
    if "fst (download_image rp sel srv h t mw mh w) = fst (download_image rp sel srv h t mw mh v)"
      and "files (snd (download_image rp sel srv h t mw mh w)) = files w"
      and "files (snd (download_image rp sel srv h t mw mh v)) = files v"
  proof -
    have "?F Map.empty" using that(2,3) by simp
    with that(1) show ?thesis by blast
  qed
  show ?thesis
  proof (cases "srv h []")
    case None
    then show ?thesis by (intro quiet) (simp_all add: download_image_unfold)
  next
    case (Some hr)
    let ?pid = "re_search_entity (url hr)"
    show ?thesis
    proof (cases "srv (manifest_url ?pid) []")
      case None
      with Some show ?thesis
        by (intro quiet) (simp_all add: download_image_unfold fetch_manifest_unfold)
    next
      case r: (Some r)
      show ?thesis
      proof (cases "json_body r")
        case None
        with Some r show ?thesis
          by (intro quiet) (simp_all add: download_image_unfold fetch_manifest_unfold)
      next
        case m: (Some m)
        show ?thesis
        proof (cases "get_image_ids m")
          case (Inl e)
          with Some r m show ?thesis
            by (intro quiet) (simp_all add: download_image_unfold fetch_manifest_unfold)
        next
          case (Inr ids)
          let ?hq = "\<lparr>rq_session = None, rq_url = h, rq_cookies = []\<rparr>"
          let ?next = "\<lambda>w. mkdir ''images''
             (w\<lparr>requests_log := requests_log w @ [?hq],
                next_session := Suc (next_session w),
                jars := (jars w)(next_session w := [(manifest_url ?pid, r)]),
                requests_log := (requests_log w @ [?hq]) @
                  [\<lparr>rq_session = Some (next_session w), rq_url = manifest_url ?pid,
                    rq_cookies = []\<rparr>]\<rparr>)"
          have d: "download_image rp sel srv h t mw mh u
                    = download_pages rp sel srv (next_session u) ?pid t mw mh 0 ids (?next u)" for u
            using Some r m Inr by (simp add: download_image_unfold fetch_manifest_unfold)
          have j: "jars (?next w) (next_session w) = jars (?next v) (next_session v)"
            by (simp add: mkdir_def)
          have f: "files (?next u) = files u" for u
            by (simp add: mkdir_def)
          from download_pages_same [OF j, of rp sel srv ?pid t mw mh 0 ids]
          show ?thesis
            unfolding d f .
        qed
      qed
    qed
  qed
qed

text \<open>
  C9. A second call of \<^verbatim>\<open>download_image\<close> with the same arguments, answered by
  the same server, ends as the first one did and leaves the files as the first call left
  them: the same paths, each with the bytes written again, nothing added. What a call
  leaves on disk is what was there before overridden by a set of files that is the same
  from whatever world the call starts (files are written anew, not appended to).
\<close>

theorem download_image_twice:
  "fst (download_image rp sel srv h t mw mh (snd (download_image rp sel srv h t mw mh w)))
     = fst (download_image rp sel srv h t mw mh w)
   \<and> files (snd (download_image rp sel srv h t mw mh (snd (download_image rp sel srv h t mw mh w))))
     = files (snd (download_image rp sel srv h t mw mh w))
   \<and> (\<exists>W. \<forall>v. files (snd (download_image rp sel srv h t mw mh v)) = files v ++ W)"
proof (intro conjI)
  let ?w1 = "snd (download_image rp sel srv h t mw mh w)"
  from download_image_same [of rp sel srv h t mw mh ?w1 w] obtain W where
    e: "fst (download_image rp sel srv h t mw mh ?w1) = fst (download_image rp sel srv h t mw mh w)"
    and a: "files (snd (download_image rp sel srv h t mw mh ?w1)) = files ?w1 ++ W"
    and b: "files ?w1 = files w ++ W"
    by blast
  show "fst (download_image rp sel srv h t mw mh ?w1) = fst (download_image rp sel srv h t mw mh w)"
    by (rule e)
  have "files ?w1 ++ W = files ?w1"
    by (subst (1 2) b) (rule map_add_twice)
  with a show "files (snd (download_image rp sel srv h t mw mh ?w1)) = files ?w1"
    by simp
next
  let ?W = "files (snd (download_image rp sel srv h t mw mh (w\<lparr>files := Map.empty\<rparr>)))"
  have "files (snd (download_image rp sel srv h t mw mh v)) = files v ++ ?W" for v
  proof -
    from download_image_same [of rp sel srv h t mw mh v "w\<lparr>files := Map.empty\<rparr>"]
    obtain W where
      a: "files (snd (download_image rp sel srv h t mw mh v)) = files v ++ W"
      and b: "?W = files (w\<lparr>files := Map.empty\<rparr>) ++ W"
      by blast
    from b have "?W = W" by simp
    with a show ?thesis by simp
  qed
  then show "\<exists>W. \<forall>v. files (snd (download_image rp sel srv h t mw mh v)) = files v ++ W"
    by blast
qed

theorem download_image_twice_witness:
  "fst (download_image no_repr ex_policy ex_server ''http://handle.slv.vic.gov.au/10381/25896'' ''jpg'' None None
          (snd (download_image no_repr ex_policy ex_server ''http://handle.slv.vic.gov.au/10381/25896'' ''jpg''
             None None world0))) = Inr ()
   \<and> files (snd (download_image no_repr ex_policy ex_server ''http://handle.slv.vic.gov.au/10381/25896'' ''jpg''
        None None
          (snd (download_image no_repr ex_policy ex_server ''http://handle.slv.vic.gov.au/10381/25896'' ''jpg''
             None None world0))))
      = [''images/slv-IE1164978-0.jpg'' \<mapsto> ''JPEG'']
   \<and> files (snd (download_image no_repr ex_policy ex_server ''http://handle.slv.vic.gov.au/10381/25896'' ''jpg''
        None None (world0\<lparr>files := [''images/slv-IE1164978-0.jpg'' \<mapsto> ''old bytes'']\<rparr>)))
      = [''images/slv-IE1164978-0.jpg'' \<mapsto> ''JPEG'']"
proof -
  have one: "files (snd (download_image no_repr ex_policy ex_server ''http://handle.slv.vic.gov.au/10381/25896''
        ''jpg'' None None world0)) = [''images/slv-IE1164978-0.jpg'' \<mapsto> ''JPEG'']"
    and res: "fst (download_image no_repr ex_policy ex_server ''http://handle.slv.vic.gov.au/10381/25896''
        ''jpg'' None None world0) = Inr ()"
    by (simp_all add: ex_server_run world0_def)
  have old: "files (snd (download_image no_repr ex_policy ex_server ''http://handle.slv.vic.gov.au/10381/25896'' ''jpg''
        None None (world0\<lparr>files := [''images/slv-IE1164978-0.jpg'' \<mapsto> ''old bytes'']\<rparr>)))
      = [''images/slv-IE1164978-0.jpg'' \<mapsto> ''JPEG'']"
    by (simp add: ex_server_run)
  from download_image_twice [of no_repr ex_policy ex_server "''http://handle.slv.vic.gov.au/10381/25896''"
      "''jpg''" None None world0]
  show ?thesis
    unfolding one res using old by simp
qed


section \<open>One file for each page\<close>

lemma page_files_Nil: "page_files srv pid t index [] w'"
  by (simp add: page_files_def)

lemma only_pages_refl: "only_pages pid t index n w w"
  by (simp add: only_pages_def)

lemma page_files_Cons:
  assumes rest: "page_files srv pid t (Suc index) qs w'"
    and only: "only_pages pid t (Suc index) (length qs) w2 w'"
    and r: "srv (rq_url q) (rq_cookies q) = Some r"
    and f: "files w2 (page_filename pid index t) = Some (content r)"
  shows "page_files srv pid t index (q # qs) w'"
  unfolding page_files_def
proof (intro allI impI)
  fix i
  assume i: "i < length (q # qs)"
  show "\<exists>r. srv (rq_url ((q # qs) ! i)) (rq_cookies ((q # qs) ! i)) = Some r
          \<and> files w' (page_filename pid (index + i) t) = Some (content r)"
  proof (cases i)
    case 0
    have "\<forall>j<length qs. page_filename pid index t \<noteq> page_filename pid (Suc index + j) t"
      by (simp add: page_filename_inj)
    with only have "files w' (page_filename pid index t) = files w2 (page_filename pid index t)"
      unfolding only_pages_def by blast
    with 0 r f show ?thesis by simp
  next
    case (Suc j)
    with i have "j < length qs" by simp
    with rest obtain r' where "srv (rq_url (qs ! j)) (rq_cookies (qs ! j)) = Some r'"
      "files w' (page_filename pid (Suc index + j) t) = Some (content r')"
      unfolding page_files_def by blast
    with Suc show ?thesis by simp
  qed
qed

lemma only_pages_Cons:
  assumes only: "only_pages pid t (Suc index) n w2 w'"
    and f: "files w2 = (files w)(page_filename pid index t \<mapsto> c)"
  shows "only_pages pid t index (Suc n) w w'"
  unfolding only_pages_def
proof (intro allI impI)
  fix p
  assume p: "\<forall>i<Suc n. p \<noteq> page_filename pid (index + i) t"
  have "\<forall>j<n. p \<noteq> page_filename pid (Suc index + j) t"
  proof (intro allI impI)
    fix j
    assume "j < n"
    then have "Suc j < Suc n" by simp
    with p have "p \<noteq> page_filename pid (index + Suc j) t" by blast
    then show "p \<noteq> page_filename pid (Suc index + j) t" by simp
  qed
  with only have "files w' p = files w2 p"
    unfolding only_pages_def by blast
  moreover from p have "p \<noteq> page_filename pid (index + 0) t" by blast
  ultimately show "files w' p = files w p"
    by (simp add: f)
qed

text \<open>When every request is answered the loop ends normally, with one request and one file a page.\<close>

lemma download_pages_files:
  assumes "\<forall>u c. srv u c \<noteq> None"
  shows "\<exists>qs. fst (download_pages rp sel srv s pid t mw mh index ids w) = Inr ()
      \<and> requests_log (snd (download_pages rp sel srv s pid t mw mh index ids w)) = requests_log w @ qs
      \<and> map rq_url qs = map (\<lambda>x. construct_image_url rp x t mw mh) ids
      \<and> page_files srv pid t index qs (snd (download_pages rp sel srv s pid t mw mh index ids w))
      \<and> only_pages pid t index (length ids) w (snd (download_pages rp sel srv s pid t mw mh index ids w))"
proof (induction ids arbitrary: index w)
  case Nil
  show ?case
    by (intro exI [of _ "[]"]) (simp add: page_files_Nil only_pages_refl)
next
  case (Cons x rest)
  let ?q = "\<lparr>rq_session = Some s, rq_url = construct_image_url rp x t mw mh, rq_cookies = jar_cookies sel (jars w s) (construct_image_url rp x t mw mh)\<rparr>"
  let ?w' = "snd (download_pages rp sel srv s pid t mw mh index (x # rest) w)"
  from assms have "srv (construct_image_url rp x t mw mh)
      (jar_cookies sel (jars w s) (construct_image_url rp x t mw mh)) \<noteq> None"
    by (elim allE)
  then obtain r where r: "srv (construct_image_url rp x t mw mh)
      (jar_cookies sel (jars w s) (construct_image_url rp x t mw mh)) = Some r"
    by (cases "srv (construct_image_url rp x t mw mh)
      (jar_cookies sel (jars w s) (construct_image_url rp x t mw mh))") simp_all
  from download_pages_step_answer [of srv rp x t mw mh sel w s r pid index rest] r
  obtain w2 where
    d: "download_pages rp sel srv s pid t mw mh index (x # rest) w
          = download_pages rp sel srv s pid t mw mh (Suc index) rest w2"
    and f: "files w2 = (files w)(page_filename pid index t \<mapsto> content r)"
    and l: "requests_log w2 = requests_log w @ [?q]"
    by blast
  from Cons.IH [of "Suc index" w2] obtain qs where
    e: "fst (download_pages rp sel srv s pid t mw mh (Suc index) rest w2) = Inr ()"
    and a: "requests_log (snd (download_pages rp sel srv s pid t mw mh (Suc index) rest w2))
          = requests_log w2 @ qs"
    and u: "map rq_url qs = map (\<lambda>x. construct_image_url rp x t mw mh) rest"
    and pf: "page_files srv pid t (Suc index) qs
               (snd (download_pages rp sel srv s pid t mw mh (Suc index) rest w2))"
    and op: "only_pages pid t (Suc index) (length rest) w2
               (snd (download_pages rp sel srv s pid t mw mh (Suc index) rest w2))"
    by blast
  from u have len: "length qs = length rest"
    by (rule map_eq_imp_length_eq)
  have "fst (download_pages rp sel srv s pid t mw mh index (x # rest) w) = Inr ()"
    unfolding d by (rule e)
  moreover have "requests_log ?w' = requests_log w @ (?q # qs)"
    unfolding d a l by simp
  moreover have "map rq_url (?q # qs) = map (\<lambda>x. construct_image_url rp x t mw mh) (x # rest)"
    using u by simp
  moreover have "page_files srv pid t index (?q # qs) ?w'"
    unfolding d
  proof (rule page_files_Cons [OF pf])
    show "only_pages pid t (Suc index) (length qs) w2
            (snd (download_pages rp sel srv s pid t mw mh (Suc index) rest w2))"
      unfolding len by (rule op)
    show "srv (rq_url ?q) (rq_cookies ?q) = Some r"
      using r by simp
    show "files w2 (page_filename pid index t) = Some (content r)"
      by (simp add: f)
  qed
  moreover have "only_pages pid t index (length (x # rest)) w ?w'"
    unfolding d using only_pages_Cons [OF op f] by simp
  ultimately show ?case
    by (intro exI [of _ "?q # qs"] conjI)
qed


text \<open>
  C2. Suppose every request is answered, the Handle resolves to \<open>pid\<close>, and the
  manifest of \<open>pid\<close> parses to a document from which \<^verbatim>\<open>get_image_ids\<close> reads the
  identifiers \<open>ids\<close>. Then \<^verbatim>\<open>download_image\<close> returns normally; after the request
  of the Handle and of the manifest it issues one request for each identifier, in order,
  at the URL \<^verbatim>\<open>construct_image_url\<close> builds; the file
  \<^verbatim>\<open>images/slv-{pid}-{i}.{image_type}\<close> holds the body of the answer to the request
  of page \<open>i\<close>, counted from 0; and no other file is touched. With the defaults, one
  canvas of service \<^verbatim>\<open>https://img.example/service1\<close> and pid \<^verbatim>\<open>IE1164978\<close>, the
  one request goes to \<^verbatim>\<open>https://img.example/service1/full/max/0/default.jpg\<close> and the
  one file is \<^verbatim>\<open>images/slv-IE1164978-0.jpg\<close>.
\<close>

theorem download_image_pages:
  assumes total: "\<forall>u c. srv u c \<noteq> None"
    and pid: "fst (get_pid srv h w) = Inr pid"
    and mr: "srv (manifest_url pid) [] = Some mr"
    and m: "json_body mr = Some m"
    and ids: "get_image_ids m = Inr ids"
  shows "\<exists>w' qs.
      download_image rp sel srv h t mw mh w = (Inr (), w')
    \<and> requests_log w' = requests_log w @
        [\<lparr>rq_session = None, rq_url = h, rq_cookies = []\<rparr>,
         \<lparr>rq_session = Some (next_session w), rq_url = manifest_url pid, rq_cookies = []\<rparr>] @ qs
    \<and> map rq_url qs = map (\<lambda>x. construct_image_url rp x t mw mh) ids
    \<and> page_files srv pid t 0 qs w'
    \<and> only_pages pid t 0 (length ids) w w'
    \<and> (\<forall>i. page_filename pid i t = ''images/slv-'' @ fmt_str pid @ ''-'' @ str_nat i @ ''.'' @ t)"
proof -
  from total have "srv h [] \<noteq> None"
    by (elim allE)
  then obtain hr where hr: "srv h [] = Some hr"
    by (cases "srv h []") simp_all
  with pid have p: "re_search_entity (url hr) = pid"
    by (simp add: get_pid_unfold)
  let ?hq = "\<lparr>rq_session = None, rq_url = h, rq_cookies = []\<rparr>"
  let ?mq = "\<lparr>rq_session = Some (next_session w), rq_url = manifest_url pid, rq_cookies = []\<rparr>"
  let ?w3 = "mkdir ''images''
     (w\<lparr>requests_log := requests_log w @ [?hq],
        next_session := Suc (next_session w),
        jars := (jars w)(next_session w := [(manifest_url pid, mr)]),
        requests_log := (requests_log w @ [?hq]) @ [?mq]\<rparr>)"
  let ?run = "download_pages rp sel srv (next_session w) pid t mw mh 0 ids ?w3"
  have d: "download_image rp sel srv h t mw mh w = ?run"
    using hr p mr m ids by (simp add: download_image_unfold fetch_manifest_unfold)
  from download_pages_files [OF total, of rp sel "next_session w" pid t mw mh 0 ids ?w3]
  obtain qs where
    e: "fst ?run = Inr ()"
    and a: "requests_log (snd ?run) = requests_log ?w3 @ qs"
    and u: "map rq_url qs = map (\<lambda>x. construct_image_url rp x t mw mh) ids"
    and pf: "page_files srv pid t 0 qs (snd ?run)"
    and op: "only_pages pid t 0 (length ids) ?w3 (snd ?run)"
    by blast
  have "download_image rp sel srv h t mw mh w = (Inr (), snd ?run)"
    unfolding d using e by (simp add: prod_eq_iff)
  moreover have "requests_log (snd ?run) = requests_log w @ [?hq, ?mq] @ qs"
    unfolding a by (simp add: mkdir_def)
  moreover have "only_pages pid t 0 (length ids) w (snd ?run)"
    using op unfolding only_pages_def by (simp add: mkdir_def)
  moreover have "\<forall>i. page_filename pid i t
      = ''images/slv-'' @ fmt_str pid @ ''-'' @ str_nat i @ ''.'' @ t"
    by (simp add: page_filename_def)
  ultimately show ?thesis
    using u pf by (intro exI [of _ "snd ?run"] exI [of _ qs] conjI)
qed

theorem download_image_pages_witness:
  "(\<forall>u c. ex_server u c \<noteq> None)
   \<and> fst (get_pid ex_server ''http://handle.slv.vic.gov.au/10381/25896'' world0) = Inr (Some ''IE1164978'')
   \<and> ex_server (manifest_url (Some ''IE1164978'')) []
       = Some (ex_response\<lparr>json_body := Some (ex_manifest [ex_canvas ''https://img.example/service1'']),
                            set_cookies := [(''JSESSIONID'', ''abc'', ''Path=/'')]\<rparr>)
   \<and> get_image_ids (ex_manifest [ex_canvas ''https://img.example/service1''])
       = Inr [JStr ''https://img.example/service1'']
   \<and> fst (download_image_default no_repr ex_policy ex_server ''http://handle.slv.vic.gov.au/10381/25896'' world0)
       = Inr ()
   \<and> map rq_url (requests_log (snd (download_image_default no_repr ex_policy ex_server
         ''http://handle.slv.vic.gov.au/10381/25896'' world0)))
       = [''http://handle.slv.vic.gov.au/10381/25896'',
          ''https://rosetta.slv.vic.gov.au/delivery/iiif/presentation/2.1/IE1164978/manifest'',
          ''https://img.example/service1/full/max/0/default.jpg'']
   \<and> files (snd (download_image_default no_repr ex_policy ex_server
         ''http://handle.slv.vic.gov.au/10381/25896'' world0))
       = [''images/slv-IE1164978-0.jpg'' \<mapsto> ''JPEG'']"
proof -
  have total: "\<forall>u c. ex_server u c \<noteq> None"
    by (simp add: ex_server_def)
  have pid: "fst (get_pid ex_server ''http://handle.slv.vic.gov.au/10381/25896'' world0)
               = Inr (Some ''IE1164978'')"
    by (simp add: ex_server_pid)
  have mr: "ex_server (manifest_url (Some ''IE1164978'')) []
       = Some (ex_response\<lparr>json_body := Some (ex_manifest [ex_canvas ''https://img.example/service1'']),
                            set_cookies := [(''JSESSIONID'', ''abc'', ''Path=/'')]\<rparr>)"
    by (simp add: ex_server_def manifest_url_def fmt_str_def)
  have m: "json_body (ex_response\<lparr>json_body := Some (ex_manifest [ex_canvas ''https://img.example/service1'']),
                            set_cookies := [(''JSESSIONID'', ''abc'', ''Path=/'')]\<rparr>)
             = Some (ex_manifest [ex_canvas ''https://img.example/service1''])"
    by simp
  from download_image_pages [OF total pid mr m ex_manifest_ids, of no_repr ex_policy "''jpg''" None None]
  have "fst (download_image no_repr ex_policy ex_server ''http://handle.slv.vic.gov.au/10381/25896'' ''jpg''
          None None world0) = Inr ()"
    by (elim exE conjE) simp
  then show ?thesis
    using total pid mr ex_manifest_ids
    by (simp add: download_image_default_def) (simp add: ex_server_run world0_def)
qed


end
